theory Spec2Isabelle
  imports Main "HOL-Library.Word"
begin

section \<open>The disk queue reader of nsqd\<close>

text \<open>
  A shallow embedding of \<^verbatim>\<open>src/nsqd/diskqueue_reader.go\<close>. Go's \<^verbatim>\<open>int64\<close> and
  \<^verbatim>\<open>int32\<close> are words of that width: \<open>+\<close> and \<open>-\<close> wrap around as Go's do, and the
  comparisons of the source are the signed ones, \<open><s\<close> and \<open>\<le>s\<close>. A method with a
  pointer receiver takes the reader and returns the updated reader; an \<^verbatim>\<open>error\<close>
  result is an \<open>error option\<close> (\<open>None\<close> is Go's \<^verbatim>\<open>nil\<close>). Log calls have no effect on
  the state and are left out.
\<close>

subsection \<open>Data\<close>

type_synonym int64 = "64 word"
type_synonym int32 = "32 word"
type_synonym byte = "8 word"

text \<open>
  Modelled from the spec: the declaration of \<^verbatim>\<open>BackendOffset\<close> is not among the sources.
  The spec gives a virtual offset as a single signed 64-bit count, and the source converts
  it to and from \<^verbatim>\<open>int64\<close> freely.
\<close>

type_synonym BackendOffset = "64 word"

text \<open>
  The errors the reader returns. \<open>Exiting\<close> is \<^verbatim>\<open>errors.New("exiting")\<close>,
  \<open>OffsetInvalid\<close> the \<^verbatim>\<open>fmt.Errorf("offset invalid: ...")\<close> of \<^verbatim>\<open>stepOffset\<close>,
  \<open>InvalidMsgSize\<close> the \<^verbatim>\<open>fmt.Errorf("invalid message read size (%d)")\<close> of
  \<^verbatim>\<open>readOne\<close>, and \<open>OSError\<close> any error of the operating system or of the
  \<^verbatim>\<open>io\<close> and \<^verbatim>\<open>fmt\<close> packages.
\<close>

datatype error =
    ErrConfirmSizeInvalid
  | ErrMoveOffsetInvalid
  | ErrOffsetTypeMismatch
  | Exiting
  | OffsetInvalid
  | InvalidMsgSize
  | OSError

record diskQueueEndInfo =
  EndFileNum :: int64
  EndPos :: int64
  VirtualEnd :: BackendOffset
  TotalMsgCnt :: int64

record diskQueueOffset =
  FileNum :: int64
  Pos :: int64

definition GreatThan :: "diskQueueOffset \<Rightarrow> diskQueueOffset \<Rightarrow> bool" where
  "GreatThan d other =
     (if FileNum other <s FileNum d then True
      else if FileNum d = FileNum other \<and> Pos other <s Pos d then True
      else False)"

text \<open>
  An open data file: \<^verbatim>\<open>readFile\<close> together with the buffered \<^verbatim>\<open>reader\<close> on it. \<open>hFile\<close> is
  the number of the file that was opened and \<open>hPos\<close> the number of bytes of it that lie
  before the next byte the reader hands out.
\<close>

record fhandle =
  hFile :: int64
  hPos :: nat

text \<open>
  The fields of \<^verbatim>\<open>diskQueueReader\<close>. The mutex and the channels are not state of the
  offset bookkeeping and are left out; what travels over a channel is an argument or a
  result of the function that handles it.
\<close>

record diskQueueReader =
  readPos :: diskQueueOffset
  endPos :: diskQueueOffset
  virtualReadOffset :: BackendOffset
  virtualEnd :: BackendOffset
  depth :: int64
  totalMsgCnt :: int64
  readerMetaName :: string
  readFrom :: string
  dataPath :: string
  maxBytesPerFile :: int64
  minMsgSize :: int32
  maxMsgSize :: int32
  syncEvery :: int64
  syncTimeout :: int64
  exitFlag :: int32
  needSync :: bool
  nextReadPos :: diskQueueOffset
  confirmedOffset :: diskQueueOffset
  virtualConfirmedOffset :: BackendOffset
  readFile :: "fhandle option"
  autoSkipError :: bool
  maxConfirmWin :: BackendOffset

subsection \<open>Offset algebra\<close>

text \<open>
  \<^verbatim>\<open>getCurrentFileEnd\<close> asks the operating system for the size of the data file with the
  offset's number. The answer of \<^verbatim>\<open>os.Stat\<close> is the parameter \<open>fsize\<close>: \<open>None\<close> when the
  call fails, the size otherwise.
\<close>

definition getCurrentFileEnd ::
  "(int64 \<Rightarrow> int64 option) \<Rightarrow> diskQueueOffset \<Rightarrow> error + int64" where
  "getCurrentFileEnd fsize offset =
     (case fsize (FileNum offset) of None \<Rightarrow> Inl OSError | Some sz \<Rightarrow> Inr sz)"

text \<open>
  The \<^verbatim>\<open>for\<close> loop of \<^verbatim>\<open>stepOffset\<close>. Its variables are \<open>newOffset\<close> and \<open>step\<close>; \<open>cur\<close>
  and \<open>maxStep\<close> stay as they were passed, and the test that chooses between the file's
  size and \<open>maxStep.Pos\<close> reads \<open>cur.FileNum\<close>, as the source does. \<open>FileNum++\<close> wraps
  around at the largest \<^verbatim>\<open>int64\<close>, so the loop need not end: the result is \<open>None\<close> when
  it does not return, \<open>Some (Inl err)\<close> when it returns an error and \<open>Some (Inr p)\<close> when it
  returns the offset \<open>p\<close>.
\<close>

partial_function (option) stepLoop ::
  "(int64 \<Rightarrow> int64 option) \<Rightarrow> diskQueueOffset \<Rightarrow> diskQueueOffset \<Rightarrow> diskQueueOffset \<Rightarrow> int64
     \<Rightarrow> (error + diskQueueOffset) option" where
  "stepLoop fsize cur maxStep newOffset step =
     (case (if FileNum cur <s FileNum maxStep then getCurrentFileEnd fsize newOffset
            else Inr (Pos maxStep)) of
        Inl err \<Rightarrow> Some (Inl err)
      | Inr fend \<Rightarrow>
          (let diff = fend - Pos newOffset in
           if diff <s step then
             (let newOffset' = newOffset\<lparr>FileNum := FileNum newOffset + 1, Pos := 0\<rparr> in
              if GreatThan newOffset' maxStep then Some (Inl OffsetInvalid)
              else if step - diff = 0 then Some (Inr newOffset')
              else stepLoop fsize cur maxStep newOffset' (step - diff))
           else
             (let newOffset' = newOffset\<lparr>Pos := Pos newOffset + step\<rparr> in
              if GreatThan newOffset' maxStep then Some (Inl OffsetInvalid)
              else Some (Inr newOffset'))))"

declare stepLoop.simps [code]

definition stepOffset ::
  "(int64 \<Rightarrow> int64 option) \<Rightarrow> diskQueueOffset \<Rightarrow> int64 \<Rightarrow> diskQueueOffset
     \<Rightarrow> (error + diskQueueOffset) option" where
  "stepOffset fsize cur step maxStep =
     (if FileNum maxStep <s FileNum cur then Some (Inl OffsetInvalid)
      else if step = 0 then Some (Inr cur)
      else stepLoop fsize cur maxStep cur step)"

subsection \<open>Control operations of the engine\<close>

text \<open>
  \<^verbatim>\<open>internalConfirm\<close> returns the reader it leaves behind and its error. It returns
  nothing (\<open>None\<close>) only when \<^verbatim>\<open>stepOffset\<close> does not return.
\<close>

definition internalConfirm ::
  "(int64 \<Rightarrow> int64 option) \<Rightarrow> diskQueueReader \<Rightarrow> BackendOffset
     \<Rightarrow> (diskQueueReader \<times> error option) option" where
  "internalConfirm fsize d offset =
     (if offset = - 1 then
        Some (d\<lparr>confirmedOffset := readPos d,
                virtualConfirmedOffset := virtualReadOffset d\<rparr>, None)
      else if offset \<le>s virtualConfirmedOffset d then Some (d, None)
      else if virtualReadOffset d <s offset then Some (d, Some ErrConfirmSizeInvalid)
      else
        (let diffVirtual = offset - virtualConfirmedOffset d in
         case stepOffset fsize (confirmedOffset d) diffVirtual (readPos d) of
           None \<Rightarrow> None
         | Some (Inl err) \<Rightarrow> Some (d, Some ErrConfirmSizeInvalid)
         | Some (Inr newConfirm) \<Rightarrow>
             Some (d\<lparr>confirmedOffset := newConfirm, virtualConfirmedOffset := offset\<rparr>,
                   None)))"

text \<open>
  \<^verbatim>\<open>internalSkipTo\<close> closes the open data file first, whatever follows. Its error after
  a failed step is the error of \<^verbatim>\<open>stepOffset\<close>.
\<close>

definition internalSkipTo ::
  "(int64 \<Rightarrow> int64 option) \<Rightarrow> diskQueueReader \<Rightarrow> BackendOffset
     \<Rightarrow> (diskQueueReader \<times> error option) option" where
  "internalSkipTo fsize d voffset =
     (let d = d\<lparr>readFile := None\<rparr> in
      if virtualEnd d <s voffset then Some (d, Some ErrMoveOffsetInvalid)
      else
        (case (if voffset = virtualEnd d then Some (Inr (endPos d))
               else stepOffset fsize (readPos d) (voffset - virtualReadOffset d) (endPos d)) of
           None \<Rightarrow> None
         | Some (Inl err) \<Rightarrow> Some (d, Some err)
         | Some (Inr newPos) \<Rightarrow>
             Some (d\<lparr>readPos := newPos, virtualReadOffset := voffset,
                     confirmedOffset := newPos, virtualConfirmedOffset := voffset\<rparr>, None)))"

definition skipToEndofFile :: "diskQueueReader \<Rightarrow> diskQueueReader" where
  "skipToEndofFile d =
     (let d = d\<lparr>readFile := None\<rparr>;
          d = d\<lparr>readPos := endPos d, virtualReadOffset := virtualEnd d\<rparr>
      in d\<lparr>confirmedOffset := readPos d, virtualConfirmedOffset := virtualReadOffset d\<rparr>)"

definition skipToNextFile :: "diskQueueReader \<Rightarrow> diskQueueReader" where
  "skipToNextFile d =
     (let d = d\<lparr>readFile := None\<rparr> in
      if FileNum (endPos d) \<le>s FileNum (readPos d) then skipToEndofFile d
      else
        (let d = d\<lparr>readPos := \<lparr>FileNum = FileNum (readPos d) + 1, Pos = 0\<rparr>\<rparr>
         in d\<lparr>confirmedOffset := readPos d, virtualConfirmedOffset := virtualReadOffset d\<rparr>))"

definition checkTailCorruption :: "diskQueueReader \<Rightarrow> diskQueueReader" where
  "checkTailCorruption d =
     (if FileNum (readPos d) <s FileNum (endPos d) \<or> Pos (readPos d) <s Pos (endPos d) then d
      else if readPos d \<noteq> endPos d then (skipToEndofFile d)\<lparr>needSync := True\<rparr>
      else d)"

text \<open>
  \<^verbatim>\<open>getVirtualOffsetDistance\<close> returns a distance and an error together. It calls itself
  only when \<open>prev\<close> lies in an earlier file than \<open>next\<close>, so \<open>FileNum++\<close> cannot wrap and
  the recursion ends.
\<close>

function getVirtualOffsetDistance ::
  "(int64 \<Rightarrow> int64 option) \<Rightarrow> diskQueueOffset \<Rightarrow> diskQueueOffset
     \<Rightarrow> BackendOffset \<times> error option" where
  "getVirtualOffsetDistance fsize prev next =
     (if GreatThan prev next then (0, Some ErrMoveOffsetInvalid)
      else if FileNum prev = FileNum next then (Pos next - Pos prev, None)
      else
        (case getCurrentFileEnd fsize prev of
           Inl err \<Rightarrow> (0, Some err)
         | Inr sz \<Rightarrow>
             (let left = sz - Pos prev;
                  prev' = prev\<lparr>FileNum := FileNum prev + 1, Pos := 0\<rparr>;
                  (vdiff, err) = getVirtualOffsetDistance fsize prev' next
              in (vdiff + left, err))))"
  by pat_completeness auto

lemma sint_succ_64: "a <s (b::int64) \<Longrightarrow> sint (a + 1) = sint a + 1"
proof -
  assume "a <s b"
  then have "sint a < sint b" by (simp add: word_sless_alt)
  moreover have "sint b < 2 ^ 63" using sint_lt [of b] by simp
  moreover have "- (2 ^ 63) \<le> sint a" using sint_ge [of a] by simp
  ultimately show ?thesis
    by (simp add: sint_word_ariths signed_take_bit_int_eq_self)
qed

lemma not_GreatThan_other_file:
  "\<not> GreatThan prev next \<Longrightarrow> FileNum prev \<noteq> FileNum next \<Longrightarrow> FileNum prev <s FileNum next"
  by (auto simp: GreatThan_def split: if_splits intro: signed.not_less_iff_gr_or_eq [THEN iffD1, THEN disjE])

termination getVirtualOffsetDistance
proof (relation "measure (\<lambda>(fsize, prev, nxt). nat (sint (FileNum nxt) - sint (FileNum prev)))")
  show "wf (measure (\<lambda>(fsize, prev, nxt). nat (sint (FileNum nxt) - sint (FileNum prev))))"
    by simp
next
  fix fsize :: "int64 \<Rightarrow> int64 option" and prev nxt :: diskQueueOffset
    and sz left :: int64 and prev' :: diskQueueOffset
  assume g: "\<not> GreatThan prev nxt" and n: "FileNum prev \<noteq> FileNum nxt"
    and p: "prev' = prev\<lparr>FileNum := FileNum prev + 1, Pos := 0\<rparr>"
  from g n have lt: "FileNum prev <s FileNum nxt" by (rule not_GreatThan_other_file)
  then have "sint (FileNum prev) < sint (FileNum nxt)" by (simp add: word_sless_alt)
  with sint_succ_64 [OF lt] p
  show "((fsize, prev', nxt), (fsize, prev, nxt))
          \<in> measure (\<lambda>(fsize, prev, nxt). nat (sint (FileNum nxt) - sint (FileNum prev)))"
    by simp
qed

definition handleReadError ::
  "(int64 \<Rightarrow> int64 option) \<Rightarrow> diskQueueReader \<Rightarrow> diskQueueReader" where
  "handleReadError fsize d =
     (let newRead = (readPos d)\<lparr>FileNum := FileNum (readPos d) + 1, Pos := 0\<rparr> in
      case (if GreatThan newRead (endPos d)
            then Inr (endPos d, d\<lparr>virtualReadOffset := virtualEnd d\<rparr>)
            else
              (case getVirtualOffsetDistance fsize (readPos d) newRead of
                 (vdiff, Some err) \<Rightarrow> Inl (skipToNextFile d)
               | (vdiff, None) \<Rightarrow>
                   Inr (newRead, d\<lparr>virtualReadOffset := virtualReadOffset d + vdiff\<rparr>))) of
        Inl d \<Rightarrow> d
      | Inr (newRead, d) \<Rightarrow>
          (let d = d\<lparr>readPos := newRead\<rparr>;
               d = d\<lparr>confirmedOffset := readPos d,
                      virtualConfirmedOffset := virtualReadOffset d\<rparr>
           in d\<lparr>needSync := True\<rparr>))"

subsection \<open>The metadata file\<close>

text \<open>
  The metadata files on disk, by name. \<^verbatim>\<open>metaDataFileName\<close> builds the name from
  \<^verbatim>\<open>dataPath\<close> and \<^verbatim>\<open>readerMetaName\<close> with \<^verbatim>\<open>path.Join\<close> and \<^verbatim>\<open>fmt.Sprintf\<close>; here the
  name is that pair.
\<close>

type_synonym metaFiles = "string \<times> string \<Rightarrow> string option"

definition metaDataFileName :: "diskQueueReader \<Rightarrow> string \<times> string" where
  "metaDataFileName d = (dataPath d, readerMetaName d)"

text \<open>The verb \<^verbatim>\<open>%d\<close> of \<^verbatim>\<open>fmt.Fprintf\<close> on an \<^verbatim>\<open>int64\<close>: decimal digits, \<^verbatim>\<open>-\<close> in front
  of a negative number.\<close>

definition digitChar :: "nat \<Rightarrow> char" where
  "digitChar n = char_of (48 + n)"

fun natDigits :: "nat \<Rightarrow> string" where
  "natDigits n = (if n < 10 then [digitChar n] else natDigits (n div 10) @ [digitChar (n mod 10)])"

declare natDigits.simps [simp del]

definition formatInt64 :: "int64 \<Rightarrow> string" where
  "formatInt64 w =
     (if sint w < 0 then CHR ''-'' # natDigits (nat (- sint w)) else natDigits (nat (sint w)))"

definition newline :: char where
  "newline = CHR 0x0A"

text \<open>The text that \<^verbatim>\<open>persistMetaData\<close> prints with the format
  \<^verbatim>\<open>"%d\n%d,%d,%d\n%d,%d,%d\n"\<close>.\<close>

definition metaText :: "diskQueueReader \<Rightarrow> string" where
  "metaText d =
     formatInt64 (totalMsgCnt d) @ [newline] @
     formatInt64 (FileNum (confirmedOffset d)) @ '','' @
     formatInt64 (Pos (confirmedOffset d)) @ '','' @
     formatInt64 (virtualConfirmedOffset d) @ [newline] @
     formatInt64 (FileNum (endPos d)) @ '','' @
     formatInt64 (Pos (endPos d)) @ '','' @
     formatInt64 (virtualEnd d) @ [newline]"

text \<open>
  \<^verbatim>\<open>persistMetaData\<close> writes the text to a temporary file and renames it over the
  metadata file. \<open>osOk\<close> says whether the operating system carries out the three steps
  (open, write, rename); when one of them fails the error is returned and the metadata
  file is as it was.
\<close>

definition persistMetaData ::
  "bool \<Rightarrow> diskQueueReader \<Rightarrow> metaFiles \<Rightarrow> metaFiles \<times> error option" where
  "persistMetaData osOk d ms =
     (if osOk then (ms(metaDataFileName d \<mapsto> metaText d), None) else (ms, Some OSError))"

definition sync ::
  "bool \<Rightarrow> diskQueueReader \<Rightarrow> metaFiles \<Rightarrow> diskQueueReader \<times> metaFiles \<times> error option" where
  "sync osOk d ms =
     (case persistMetaData osOk d ms of
        (ms, Some err) \<Rightarrow> (d, ms, Some err)
      | (ms, None) \<Rightarrow> (d\<lparr>needSync := False\<rparr>, ms, None))"

text \<open>
  \<^verbatim>\<open>fmt.Fscanf\<close>, as far as the format of the metadata file uses it. The verb \<^verbatim>\<open>%d\<close> skips
  blanks (not a newline), takes an optional sign and at least one decimal digit, and
  fails on a number that is not an \<^verbatim>\<open>int64\<close>. A newline of the format matches blanks
  followed by a newline or by the end of the input; any other character of the format
  matches itself. The values are stored as they are scanned, so after an error the
  operands before the failing one hold their new values.
\<close>

definition digitVal :: "char \<Rightarrow> nat option" where
  "digitVal c =
     (let k = (of_char c :: nat) in if 48 \<le> k \<and> k \<le> 57 then Some (k - 48) else None)"

fun scanDigits :: "string \<Rightarrow> nat \<Rightarrow> nat \<times> string" where
  "scanDigits [] acc = (acc, [])"
| "scanDigits (c # cs) acc =
     (case digitVal c of None \<Rightarrow> (acc, c # cs) | Some k \<Rightarrow> scanDigits cs (10 * acc + k))"

definition isBlank :: "char \<Rightarrow> bool" where
  "isBlank c = (c = CHR '' '' \<or> c = CHR 0x09)"

definition scanSign :: "string \<Rightarrow> bool \<times> string" where
  "scanSign s =
     (case s of
        [] \<Rightarrow> (False, s)
      | c # cs \<Rightarrow> if c = CHR ''-'' then (True, cs) else if c = CHR ''+'' then (False, cs)
                  else (False, s))"

definition scanInt :: "string \<Rightarrow> (int64 \<times> string) option" where
  "scanInt s =
     (let (neg, s) = scanSign (dropWhile isBlank s) in
      case s of
        [] \<Rightarrow> None
      | c # cs \<Rightarrow>
          if digitVal c = None then None
          else
            (let (n, rest) = scanDigits s 0;
                 i = (if neg then - int n else int n)
             in if - (2 ^ 63) \<le> i \<and> i < 2 ^ 63 then Some (word_of_int i, rest) else None))"

definition scanLit :: "char \<Rightarrow> string \<Rightarrow> string option" where
  "scanLit c s =
     (if c = newline then
        (case dropWhile isBlank s of
           [] \<Rightarrow> Some []
         | x # xs \<Rightarrow> if x = newline then Some xs else None)
      else
        (case s of [] \<Rightarrow> None | x # xs \<Rightarrow> if x = c then Some xs else None))"

datatype directive = VerbD | Lit char

fun Fscanf :: "directive list \<Rightarrow> string \<Rightarrow> int64 list \<Rightarrow> int64 list \<times> error option" where
  "Fscanf [] s vals = (vals, None)"
| "Fscanf (VerbD # fs) s vals =
     (case scanInt s of
        None \<Rightarrow> (vals, Some OSError)
      | Some (v, s) \<Rightarrow> Fscanf fs s (vals @ [v]))"
| "Fscanf (Lit c # fs) s vals =
     (case scanLit c s of None \<Rightarrow> (vals, Some OSError) | Some s \<Rightarrow> Fscanf fs s vals)"

definition metaFormat :: "directive list" where
  "metaFormat =
     [VerbD, Lit newline,
      VerbD, Lit CHR '','', VerbD, Lit CHR '','', VerbD, Lit newline,
      VerbD, Lit CHR '','', VerbD, Lit CHR '','', VerbD, Lit newline]"

text \<open>The operands of the \<^verbatim>\<open>Fscanf\<close> call of \<^verbatim>\<open>retrieveMetaData\<close>, in their order.\<close>

definition metaOperands :: "(int64 \<Rightarrow> diskQueueReader \<Rightarrow> diskQueueReader) list" where
  "metaOperands =
     [\<lambda>v d. d\<lparr>totalMsgCnt := v\<rparr>,
      \<lambda>v d. d\<lparr>confirmedOffset := (confirmedOffset d)\<lparr>FileNum := v\<rparr>\<rparr>,
      \<lambda>v d. d\<lparr>confirmedOffset := (confirmedOffset d)\<lparr>Pos := v\<rparr>\<rparr>,
      \<lambda>v d. d\<lparr>virtualConfirmedOffset := v\<rparr>,
      \<lambda>v d. d\<lparr>endPos := (endPos d)\<lparr>FileNum := v\<rparr>\<rparr>,
      \<lambda>v d. d\<lparr>endPos := (endPos d)\<lparr>Pos := v\<rparr>\<rparr>,
      \<lambda>v d. d\<lparr>virtualEnd := v\<rparr>]"

definition storeOperands :: "int64 list \<Rightarrow> diskQueueReader \<Rightarrow> diskQueueReader" where
  "storeOperands vals d = fold (\<lambda>(store, v) d. store v d) (zip metaOperands vals) d"

definition retrieveMetaData ::
  "diskQueueReader \<Rightarrow> metaFiles \<Rightarrow> diskQueueReader \<times> error option" where
  "retrieveMetaData d ms =
     (case ms (metaDataFileName d) of
        None \<Rightarrow> (d, Some OSError)
      | Some txt \<Rightarrow>
          (case Fscanf metaFormat txt [] of
             (vals, Some err) \<Rightarrow> (storeOperands vals d, Some err)
           | (vals, None) \<Rightarrow>
               (let d = storeOperands vals d
                in (d\<lparr>readPos := confirmedOffset d,
                       virtualReadOffset := virtualConfirmedOffset d\<rparr>, None))))"

text \<open>
  \<^verbatim>\<open>newDiskQueueReader\<close>: the fields the composite literal does not name have Go's zero
  value. The error of \<^verbatim>\<open>retrieveMetaData\<close> is only logged. The engine the constructor
  starts is \<^verbatim>\<open>ioLoop\<close>, modelled below.
\<close>

definition newDiskQueueReader ::
  "metaFiles \<Rightarrow> string \<Rightarrow> string \<Rightarrow> string \<Rightarrow> int64 \<Rightarrow> int32 \<Rightarrow> int32 \<Rightarrow> int64 \<Rightarrow> int64 \<Rightarrow> bool
     \<Rightarrow> diskQueueReader" where
  "newDiskQueueReader ms readFrom' metaname dataPath' maxBytesPerFile' minMsgSize' maxMsgSize'
       syncEvery' syncTimeout' autoSkip =
     (let d = \<lparr>readPos = \<lparr>FileNum = 0, Pos = 0\<rparr>,
               endPos = \<lparr>FileNum = 0, Pos = 0\<rparr>,
               virtualReadOffset = 0,
               virtualEnd = 0,
               depth = 0,
               totalMsgCnt = 0,
               readerMetaName = metaname,
               readFrom = readFrom',
               dataPath = dataPath',
               maxBytesPerFile = maxBytesPerFile',
               minMsgSize = minMsgSize',
               maxMsgSize = maxMsgSize',
               syncEvery = syncEvery',
               syncTimeout = syncTimeout',
               exitFlag = 0,
               needSync = False,
               nextReadPos = \<lparr>FileNum = 0, Pos = 0\<rparr>,
               confirmedOffset = \<lparr>FileNum = 0, Pos = 0\<rparr>,
               virtualConfirmedOffset = 0,
               readFile = None,
               autoSkipError = autoSkip,
               maxConfirmWin = 10000\<rparr>
      in fst (retrieveMetaData d ms))"

subsection \<open>Reading one message\<close>

text \<open>
  The data files of the queue, by file number: \<open>None\<close> when the file cannot be opened,
  its bytes otherwise. The writer owns them, so every function that reads them takes
  them as they are at that moment. \<^verbatim>\<open>os.Stat\<close> and \<^verbatim>\<open>File.Stat\<close> report the length.
\<close>

type_synonym dataFiles = "int64 \<Rightarrow> byte list option"

definition fileSizes :: "dataFiles \<Rightarrow> int64 \<Rightarrow> int64 option" where
  "fileSizes files n = map_option (\<lambda>bs. of_nat (length bs)) (files n)"

text \<open>
  Modelled from the spec: the declaration of \<^verbatim>\<open>ReadResult\<close> is not among the sources. The
  spec gives it a virtual offset, the bytes and an optional failure; the source writes its
  fields \<^verbatim>\<open>offset\<close>, \<^verbatim>\<open>data\<close> and \<^verbatim>\<open>err\<close>.
\<close>

record ReadResult =
  rOffset :: BackendOffset
  rData :: "byte list"
  rErr :: "error option"

text \<open>
  What a call of \<^verbatim>\<open>readOne\<close> leaves: the reader and the three results, or a run-time
  panic (\<^verbatim>\<open>make\<close> with a negative length, possible only when \<^verbatim>\<open>minMsgSize\<close> is negative).
\<close>

datatype readOutcome =
    Returned diskQueueReader BackendOffset "byte list" "error option"
  | Panicked

text \<open>
  The part of \<^verbatim>\<open>readOne\<close> after the label's block, with the file open on \<open>h\<close>: the length
  prefix (four bytes, big-endian, signed), the payload, and the advance of the read
  position. \<^verbatim>\<open>4 + msgSize\<close> is an \<^verbatim>\<open>int32\<close> sum, converted to \<^verbatim>\<open>int64\<close> afterwards.
\<close>

definition readMsg :: "dataFiles \<Rightarrow> diskQueueReader \<Rightarrow> fhandle \<Rightarrow> readOutcome" where
  "readMsg files d h =
     (let voffset = virtualReadOffset d;
          avail = (case files (hFile h) of None \<Rightarrow> [] | Some bs \<Rightarrow> drop (hPos h) bs)
      in
      if length avail < 4 then Returned (d\<lparr>readFile := None\<rparr>) voffset [] (Some OSError)
      else
        (let msgSize = (word_rcat (take 4 avail) :: int32) in
         if msgSize <s minMsgSize d \<or> maxMsgSize d <s msgSize
         then Returned (d\<lparr>readFile := None\<rparr>) voffset [] (Some InvalidMsgSize)
         else if msgSize <s 0 then Panicked
         else if length (drop 4 avail) < nat (sint msgSize)
         then Returned (d\<lparr>readFile := None\<rparr>) voffset [] (Some OSError)
         else
           (let readBuf = take (nat (sint msgSize)) (drop 4 avail);
                h = h\<lparr>hPos := hPos h + 4 + nat (sint msgSize)\<rparr>;
                d = d\<lparr>readFile := Some h\<rparr>;
                voffset = virtualReadOffset d;
                totalBytes = (scast (4 + msgSize) :: int64);
                oldPos = readPos d;
                d = d\<lparr>readPos := (readPos d)\<lparr>Pos := Pos (readPos d) + totalBytes\<rparr>\<rparr>;
                d = d\<lparr>virtualReadOffset := virtualReadOffset d + totalBytes\<rparr>
            in
            case (if FileNum (readPos d) <s FileNum (endPos d)
                  then (case fileSizes files (hFile h) of
                          None \<Rightarrow> Inl OSError
                        | Some sz \<Rightarrow> Inr (sz \<le>s Pos (readPos d)))
                  else Inr False) of
              Inl err \<Rightarrow> Returned d voffset readBuf (Some err)
            | Inr isEnd \<Rightarrow>
                (let d = (if isEnd
                          then d\<lparr>readFile := None,
                                 readPos := \<lparr>FileNum = FileNum (readPos d) + 1, Pos = 0\<rparr>\<rparr>
                          else d);
                     d = (if FileNum oldPos \<noteq> FileNum (readPos d) then d\<lparr>needSync := True\<rparr>
                          else d)
                 in Returned d voffset readBuf None))))"

text \<open>
  \<^verbatim>\<open>readOne\<close> from the label \<^verbatim>\<open>CheckFileOpen\<close>: the \<^verbatim>\<open>goto\<close> is the recursive call. It is
  taken only while the read position lies in an earlier file than the end, so it ends.
  Opening fails when the file is not there; seeking in an open file does not fail.
\<close>

function readOne :: "dataFiles \<Rightarrow> diskQueueReader \<Rightarrow> readOutcome" where
  "readOne files d =
     (let voffset = virtualReadOffset d in
      case (case readFile d of
              Some h \<Rightarrow> Inr h
            | None \<Rightarrow>
                (case files (FileNum (readPos d)) of
                   None \<Rightarrow> Inl OSError
                 | Some bs \<Rightarrow>
                     Inr \<lparr>hFile = FileNum (readPos d),
                          hPos = (if 0 <s Pos (readPos d) then nat (sint (Pos (readPos d)))
                                  else 0)\<rparr>)) of
        Inl err \<Rightarrow> Returned d voffset [] (Some err)
      | Inr h \<Rightarrow>
          (let d = d\<lparr>readFile := Some h\<rparr> in
           if FileNum (readPos d) <s FileNum (endPos d) then
             (case fileSizes files (hFile h) of
                None \<Rightarrow> Returned d voffset [] (Some OSError)
              | Some sz \<Rightarrow>
                  if sz \<le>s Pos (readPos d)
                  then readOne files
                         (d\<lparr>readPos := \<lparr>FileNum = FileNum (readPos d) + 1, Pos = 0\<rparr>,
                            readFile := None\<rparr>)
                  else readMsg files d h)
           else readMsg files d h))"
  by pat_completeness auto

termination readOne
proof (relation "measure (\<lambda>(files, d). nat (sint (FileNum (endPos d)) - sint (FileNum (readPos d))))")
  show "wf (measure (\<lambda>(files, d).
          nat (sint (FileNum (endPos d)) - sint (FileNum (readPos d)))))"
    by simp
next
  fix files :: dataFiles and d d' :: diskQueueReader and x :: "error + fhandle" and h :: fhandle
    and sz :: int64
  assume d': "d' = d\<lparr>readFile := Some h\<rparr>"
    and lt: "FileNum (readPos d') <s FileNum (endPos d')"
  from lt have "sint (FileNum (readPos d')) < sint (FileNum (endPos d'))"
    by (simp add: word_sless_alt)
  with sint_succ_64 [OF lt] d'
  show "((files, d'\<lparr>readPos := \<lparr>FileNum = FileNum (readPos d') + 1, Pos = 0\<rparr>,
                    readFile := None\<rparr>), (files, d))
          \<in> measure (\<lambda>(files, d).
               nat (sint (FileNum (endPos d)) - sint (FileNum (readPos d))))"
    by simp
qed

subsection \<open>The engine\<close>

text \<open>
  The local variables of \<^verbatim>\<open>ioLoop\<close>, the reader \<open>dq\<close> (\<^verbatim>\<open>d\<close> in the source) and the
  metadata files the loop writes. \<open>r\<close> is a channel that is either \<^verbatim>\<open>d.readResultChan\<close>
  or \<^verbatim>\<open>nil\<close>: \<open>rArmed\<close> says that it is \<^verbatim>\<open>d.readResultChan\<close>.
\<close>

record ioLoopVars =
  dq :: diskQueueReader
  meta :: metaFiles
  dataRead :: ReadResult
  rerr :: "error option"
  syncerr :: "error option"
  count :: int64
  rArmed :: bool
  continueRead :: bool

text \<open>The start of an iteration: the sync counter and the sync.\<close>

definition housekeeping :: "bool \<Rightarrow> ioLoopVars \<Rightarrow> ioLoopVars" where
  "housekeeping osOk l =
     (let l = (if count l = syncEvery (dq l)
               then l\<lparr>count := 0, dq := (dq l)\<lparr>needSync := True\<rparr>\<rparr> else l)
      in if needSync (dq l)
         then (case sync osOk (dq l) (meta l) of
                 (d, ms, err) \<Rightarrow> l\<lparr>dq := d, meta := ms, syncerr := err\<rparr>)
         else l)"

text \<open>
  The readiness decision, from \<^verbatim>\<open>if rerr != nil\<close> to the \<^verbatim>\<open>select\<close>. It ends at the
  \<^verbatim>\<open>select\<close> with \<open>r\<close> set, or at \<^verbatim>\<open>continue\<close>, or in the panic of \<^verbatim>\<open>readOne\<close>.
\<close>

datatype iteration = AtSelect ioLoopVars | Continue ioLoopVars | Panic

definition readiness :: "dataFiles \<Rightarrow> ioLoopVars \<Rightarrow> iteration" where
  "readiness files l =
     (let d = dq l in
      if rerr l \<noteq> None then AtSelect (l\<lparr>rArmed := False\<rparr>)
      else if virtualConfirmedOffset d + maxConfirmWin d <s virtualReadOffset d
      then AtSelect (l\<lparr>rArmed := False\<rparr>)
      else if FileNum (readPos d) <s FileNum (endPos d) \<or> Pos (readPos d) <s Pos (endPos d)
      then
        (if continueRead l then
           (case readOne files d of
              Panicked \<Rightarrow> Panic
            | Returned d voffset buf err \<Rightarrow>
                (let l = l\<lparr>dq := d,
                            dataRead := \<lparr>rOffset = voffset, rData = buf, rErr = err\<rparr>,
                            rerr := err\<rparr>
                 in if err \<noteq> None
                    then (if autoSkipError d
                          then Continue (l\<lparr>dq := handleReadError (fileSizes files) d,
                                           rerr := None\<rparr>)
                          else AtSelect (l\<lparr>rArmed := True\<rparr>))
                    else AtSelect (l\<lparr>continueRead := False, rArmed := True\<rparr>)))
         else AtSelect (l\<lparr>rArmed := True\<rparr>))
      else AtSelect (l\<lparr>rArmed := False\<rparr>))"

text \<open>
  The cases of the \<^verbatim>\<open>select\<close>. The send \<^verbatim>\<open>r <- dataRead\<close> can be chosen only when \<open>r\<close> is not
  \<^verbatim>\<open>nil\<close>; the other cases are chosen when a caller, the ticker or \<^verbatim>\<open>exit\<close> is at the
  other end of their channel.
\<close>

datatype event =
    Delivered
  | SkipTo BackendOffset
  | EndUpdated diskQueueEndInfo
  | Confirm BackendOffset
  | SyncTick
  | Exit

text \<open>
  What a case leaves: \<open>Blocked\<close> when the case cannot be chosen, \<open>NoAnswer\<close> when the
  handler does not return, \<open>Exited\<close> after \<^verbatim>\<open>goto exit\<close>, and otherwise the variables for
  the next iteration with the error sent on the response channel (\<open>None\<close> is \<^verbatim>\<open>nil\<close>, also
  for the cases that send nothing).
\<close>

datatype selected =
    Blocked
  | NoAnswer
  | Exited ioLoopVars
  | Next ioLoopVars "error option"

definition afterDelivery :: "ioLoopVars \<Rightarrow> ioLoopVars" where
  "afterDelivery l =
     (if rerr l = None then l\<lparr>dq := checkTailCorruption (dq l), continueRead := True\<rparr> else l)"

definition endUpdated :: "ioLoopVars \<Rightarrow> diskQueueEndInfo \<Rightarrow> ioLoopVars" where
  "endUpdated l e =
     (let l = l\<lparr>count := count l + 1\<rparr>;
          d = dq l;
          d = (if FileNum (endPos d) \<noteq> EndFileNum e \<and> EndPos e = 0
               then d\<lparr>needSync := True\<rparr> else d);
          d = (if EndFileNum e <s FileNum (readPos d)
               then d\<lparr>readPos := \<lparr>FileNum = EndFileNum e, Pos = EndPos e\<rparr>,
                      virtualReadOffset := VirtualEnd e\<rparr>
               else d);
          d = (if FileNum (readPos d) = EndFileNum e \<and> EndPos e <s Pos (readPos d)
               then d\<lparr>readPos := (readPos d)\<lparr>Pos := EndPos e\<rparr>,
                      virtualReadOffset := VirtualEnd e\<rparr>
               else d);
          d = d\<lparr>endPos := (endPos d)\<lparr>Pos := EndPos e\<rparr>\<rparr>;
          d = d\<lparr>endPos := (endPos d)\<lparr>FileNum := EndFileNum e\<rparr>\<rparr>;
          d = d\<lparr>totalMsgCnt := TotalMsgCnt e\<rparr>;
          d = d\<lparr>virtualEnd := VirtualEnd e\<rparr>
      in l\<lparr>dq := d\<rparr>)"

definition selectCase :: "(int64 \<Rightarrow> int64 option) \<Rightarrow> ioLoopVars \<Rightarrow> event \<Rightarrow> selected" where
  "selectCase fsize l ev =
     (case ev of
        Delivered \<Rightarrow> if rArmed l then Next (afterDelivery l) None else Blocked
      | SkipTo skipInfo \<Rightarrow>
          (case internalSkipTo fsize (dq l) skipInfo of
             None \<Rightarrow> NoAnswer
           | Some (d, skiperr) \<Rightarrow> Next (l\<lparr>dq := d, rerr := None\<rparr>) skiperr)
      | EndUpdated e \<Rightarrow> Next (endUpdated l e) None
      | Confirm confirmInfo \<Rightarrow>
          (case internalConfirm fsize (dq l) confirmInfo of
             None \<Rightarrow> NoAnswer
           | Some (d, err) \<Rightarrow> Next (l\<lparr>dq := d\<rparr>) err)
      | SyncTick \<Rightarrow>
          Next (if 0 <s count l then l\<lparr>count := 0, dq := (dq l)\<lparr>needSync := True\<rparr>\<rparr> else l)
            None
      | Exit \<Rightarrow> Exited l)"

subsection \<open>Public operations\<close>

text \<open>
  Modelled from the spec: the interface \<^verbatim>\<open>BackendQueueEnd\<close> is not among the sources. An
  argument of that type is a \<^verbatim>\<open>*diskQueueEndInfo\<close>, which may be \<^verbatim>\<open>nil\<close>, or a value of
  another type; the spec calls the latter a non-matching end descriptor.
\<close>

datatype BackendQueueEnd = DiskQueueEnd "diskQueueEndInfo option" | OtherQueueEnd

text \<open>
  A public operation reads \<^verbatim>\<open>exitFlag\<close> and either returns at once or sends its request
  to the engine and returns the engine's answer. \<open>Inl\<close> is the immediate return with its
  error; \<open>Inr\<close> is the event the engine receives. \<^verbatim>\<open>UpdateQueueEnd\<close> has no result: it
  returns at once (\<open>None\<close>) or sends the end to the engine.
\<close>

definition ConfirmRead :: "diskQueueReader \<Rightarrow> BackendOffset \<Rightarrow> error + event" where
  "ConfirmRead d offset = (if exitFlag d = 1 then Inl Exiting else Inr (Confirm offset))"

definition SkipReadToOffset :: "diskQueueReader \<Rightarrow> int64 \<Rightarrow> error + event" where
  "SkipReadToOffset d offset = (if exitFlag d = 1 then Inl Exiting else Inr (SkipTo offset))"

definition SkipToEnd :: "diskQueueReader \<Rightarrow> error + event" where
  "SkipToEnd d = (if exitFlag d = 1 then Inl Exiting else Inr (SkipTo (virtualEnd d)))"

definition UpdateQueueEnd :: "diskQueueReader \<Rightarrow> BackendQueueEnd \<Rightarrow> event option" where
  "UpdateQueueEnd d e =
     (case e of
        OtherQueueEnd \<Rightarrow> None
      | DiskQueueEnd None \<Rightarrow> None
      | DiskQueueEnd (Some e) \<Rightarrow> if exitFlag d = 1 then None else Some (EndUpdated e))"

text \<open>
  A call of an error-returning operation against the engine in the state \<open>l\<close>: the
  immediate return leaves the engine as it is; a request is served by the case of the
  \<^verbatim>\<open>select\<close> that receives it.
\<close>

definition served :: "(int64 \<Rightarrow> int64 option) \<Rightarrow> ioLoopVars \<Rightarrow> error + event \<Rightarrow> selected" where
  "served fsize l call =
     (case call of Inl err \<Rightarrow> Next l (Some err) | Inr ev \<Rightarrow> selectCase fsize l ev)"

definition servedUpdate ::
  "(int64 \<Rightarrow> int64 option) \<Rightarrow> ioLoopVars \<Rightarrow> event option \<Rightarrow> selected" where
  "servedUpdate fsize l call =
     (case call of None \<Rightarrow> Next l None | Some ev \<Rightarrow> selectCase fsize l ev)"

subsection \<open>Example states\<close>

text \<open>The variables of \<^verbatim>\<open>ioLoop\<close> when the loop is entered for the first time.\<close>

definition ioLoopStart :: "diskQueueReader \<Rightarrow> metaFiles \<Rightarrow> ioLoopVars" where
  "ioLoopStart d ms =
     \<lparr>dq = d, meta = ms, dataRead = \<lparr>rOffset = 0, rData = [], rErr = None\<rparr>, rerr = None,
      syncerr = None, count = 0, rArmed = False, continueRead = True\<rparr>"

text \<open>A reader without a metadata file that has read two frames of fourteen bytes out of
  three and confirmed none.\<close>

definition exampleReader :: diskQueueReader where
  "exampleReader =
     (newDiskQueueReader (\<lambda>_. None) ''topic'' ''channel'' ''/data'' 100 0 1000 10 10 False)
       \<lparr>readPos := \<lparr>FileNum = 0, Pos = 28\<rparr>, virtualReadOffset := 28,
        endPos := \<lparr>FileNum = 0, Pos = 42\<rparr>, virtualEnd := 42\<rparr>"

text \<open>The example reader with ten thousand bytes read and none confirmed, and a message
  read ahead but not yet delivered.\<close>

definition windowReader :: diskQueueReader where
  "windowReader =
     exampleReader\<lparr>readPos := \<lparr>FileNum = 0, Pos = 10000\<rparr>, virtualReadOffset := 10000,
                   endPos := \<lparr>FileNum = 0, Pos = 20000\<rparr>, virtualEnd := 20000\<rparr>"

text \<open>The example reader after the first frame is confirmed, with three messages in the
  queue.\<close>

definition confirmedReader :: diskQueueReader where
  "confirmedReader =
     exampleReader\<lparr>confirmedOffset := \<lparr>FileNum = 0, Pos = 14\<rparr>, virtualConfirmedOffset := 14,
                   totalMsgCnt := 3\<rparr>"

text \<open>File sizes for a queue whose file numbers reach the largest \<^verbatim>\<open>int64\<close> and go on at
  the smallest.\<close>

definition wrapSizes :: "int64 \<Rightarrow> int64 option" where
  "wrapSizes f =
     (if f = 9223372036854775806 then Some 0
      else if f = 9223372036854775807 then Some 9
      else if f = - 9223372036854775808 then Some 100
      else None)"

text \<open>File sizes for a queue that has one frame of fourteen bytes in file 0 and two in
  file 1.\<close>

definition rolledSizes :: "int64 \<Rightarrow> int64 option" where
  "rolledSizes f = (if f = 0 then Some 14 else if f = 1 then Some 28 else None)"

text \<open>File sizes for a queue whose first two files hold \<open>2\<^sup>6\<^sup>2\<close> bytes each.\<close>

definition hugeSizes :: "int64 \<Rightarrow> int64 option" where
  "hugeSizes f =
     (if f = 0 then Some 4611686018427387904
      else if f = 1 then Some 4611686018427387904
      else if f = 2 then Some 100
      else None)"

section \<open>Properties\<close>

subsection \<open>Signed 64-bit arithmetic without wrap-around\<close>

lemma sint_add_64:
  "- (2 ^ 63) \<le> sint a + sint b \<Longrightarrow> sint a + sint b < 2 ^ 63
     \<Longrightarrow> sint (a + b :: int64) = sint a + sint b"
  by (simp add: sint_word_ariths signed_take_bit_int_eq_self)

lemma sint_sub_64:
  "- (2 ^ 63) \<le> sint a - sint b \<Longrightarrow> sint a - sint b < 2 ^ 63
     \<Longrightarrow> sint (a - b :: int64) = sint a - sint b"
  by (simp add: sint_word_ariths signed_take_bit_int_eq_self)

lemma sint_range_64: "- (2 ^ 63) \<le> sint (a::int64) \<and> sint a < 2 ^ 63"
  using sint_ge [of a] sint_lt [of a] by simp

subsection \<open>The step returns\<close>

text \<open>
  When \<open>maxStep.FileNum\<close> is not the largest \<^verbatim>\<open>int64\<close>, the loop of \<^verbatim>\<open>stepOffset\<close> ends:
  every turn that does not return moves \<open>newOffset\<close> one file closer to the file after
  \<open>maxStep\<close>, where the loop returns an error.
\<close>

lemma not_top_sint: "a <s a + 1 \<Longrightarrow> sint (a :: int64) < 2 ^ 63 - 1"
proof (rule ccontr)
  assume lt: "a <s a + 1" and "\<not> sint a < 2 ^ 63 - 1"
  with sint_range_64 [of a] have "sint a = 2 ^ 63 - 1" by simp
  then have "word_of_int (sint a) = (word_of_int (2 ^ 63 - 1) :: int64)" by simp
  then have "a = 9223372036854775807" by simp
  with lt show False by (simp add: word_sless_alt)
qed

lemma stepLoop_returns:
  assumes top: "FileNum M <s FileNum M + 1"
    and below: "FileNum p \<le>s FileNum M"
  shows "\<exists>r. stepLoop fsize c M p s = Some r"
  using below
proof (induction "nat (sint (FileNum M) - sint (FileNum p))" arbitrary: p s rule: less_induct)
  case less
  let ?p' = "p\<lparr>FileNum := FileNum p + 1, Pos := 0\<rparr>"
  from less.prems have le: "sint (FileNum p) \<le> sint (FileNum M)" by (simp add: word_sle_eq)
  with not_top_sint [OF top] sint_range_64 [of "FileNum p"]
  have suc: "sint (FileNum p + 1) = sint (FileNum p) + 1"
    by (intro sint_add_64 [of "FileNum p" 1, simplified]) simp_all
  have rec: "\<exists>r. stepLoop fsize c M ?p' s' = Some r" if "\<not> GreatThan ?p' M" for s'
  proof -
    from that have "FileNum ?p' \<le>s FileNum M"
      by (auto simp: GreatThan_def signed.not_less split: if_splits)
    moreover from this suc le
    have "nat (sint (FileNum M) - sint (FileNum ?p')) < nat (sint (FileNum M) - sint (FileNum p))"
      by (simp add: word_sle_eq)
    ultimately show ?thesis by (intro less.hyps)
  qed
  show ?case
    using rec
    by (subst stepLoop.simps) (auto simp: Let_def split: sum.splits)
qed

lemma stepOffset_returns:
  assumes top: "FileNum maxStep <s FileNum maxStep + 1"
  shows "\<exists>r. stepOffset fsize cur step maxStep = Some r"
  using stepLoop_returns [OF top, of cur fsize cur step]
  by (auto simp: stepOffset_def signed.not_less)

subsection \<open>Confirm\<close>

lemma example_confirm_step:
  "stepOffset (\<lambda>_. None) \<lparr>FileNum = 0, Pos = 0\<rparr> 14 \<lparr>FileNum = 0, Pos = 28\<rparr>
     = Some (Inr \<lparr>FileNum = 0, Pos = 14\<rparr>)"
  unfolding stepOffset_def by (subst stepLoop.simps) (simp add: GreatThan_def)

text \<open>
  Claim C1. A confirm request that the engine receives is answered by
  \<^verbatim>\<open>internalConfirm\<close>, and it is answered whenever the file number of the read position
  is not the largest \<^verbatim>\<open>int64\<close>. With the offset \<open>-1\<close> the confirmed position becomes the read
  position, the confirmed virtual offset the read virtual offset, and the answer is
  \<^verbatim>\<open>nil\<close>. Otherwise, an offset that is at most the confirmed virtual offset is answered
  with \<^verbatim>\<open>nil\<close> and changes nothing; an offset beyond the read virtual offset is answered
  with \<^verbatim>\<open>ErrConfirmSizeInvalid\<close>; any other offset steps the confirmed position by
  \<open>offset - virtualConfirmedOffset\<close> bytes with the read position as the bound, stores
  the result and the offset when the step returns an offset, and answers
  \<^verbatim>\<open>ErrConfirmSizeInvalid\<close> when the step returns an error. Every answer that is an error
  is \<^verbatim>\<open>ErrConfirmSizeInvalid\<close> and leaves all variables of the engine, the reader among
  them, as they were.
\<close>

theorem confirm_request:
  "(FileNum (readPos (dq l)) <s FileNum (readPos (dq l)) + 1 \<longrightarrow>
      (\<exists>l' resp. selectCase fsize l (Confirm offset) = Next l' resp)) \<and>
   (offset = - 1 \<longrightarrow>
      selectCase fsize l (Confirm offset) =
        Next (l\<lparr>dq := (dq l)\<lparr>confirmedOffset := readPos (dq l),
                               virtualConfirmedOffset := virtualReadOffset (dq l)\<rparr>\<rparr>) None) \<and>
   (offset \<noteq> - 1 \<and> offset \<le>s virtualConfirmedOffset (dq l) \<longrightarrow>
      selectCase fsize l (Confirm offset) = Next l None) \<and>
   (offset \<noteq> - 1 \<and> \<not> offset \<le>s virtualConfirmedOffset (dq l) \<and>
    virtualReadOffset (dq l) <s offset \<longrightarrow>
      selectCase fsize l (Confirm offset) = Next l (Some ErrConfirmSizeInvalid)) \<and>
   (offset \<noteq> - 1 \<and> \<not> offset \<le>s virtualConfirmedOffset (dq l) \<and>
    \<not> virtualReadOffset (dq l) <s offset \<longrightarrow>
      (\<forall>p. stepOffset fsize (confirmedOffset (dq l))
              (offset - virtualConfirmedOffset (dq l)) (readPos (dq l)) = Some (Inr p) \<longrightarrow>
           selectCase fsize l (Confirm offset) =
             Next (l\<lparr>dq := (dq l)\<lparr>confirmedOffset := p,
                                    virtualConfirmedOffset := offset\<rparr>\<rparr>) None) \<and>
      (\<forall>e. stepOffset fsize (confirmedOffset (dq l))
              (offset - virtualConfirmedOffset (dq l)) (readPos (dq l)) = Some (Inl e) \<longrightarrow>
           selectCase fsize l (Confirm offset) = Next l (Some ErrConfirmSizeInvalid))) \<and>
   (\<forall>l' e. selectCase fsize l (Confirm offset) = Next l' (Some e) \<longrightarrow>
      l' = l \<and> e = ErrConfirmSizeInvalid)"
proof (rule conjI)
  show "FileNum (readPos (dq l)) <s FileNum (readPos (dq l)) + 1 \<longrightarrow>
          (\<exists>l' resp. selectCase fsize l (Confirm offset) = Next l' resp)"
  proof
    assume "FileNum (readPos (dq l)) <s FileNum (readPos (dq l)) + 1"
    from stepOffset_returns [OF this, of fsize "confirmedOffset (dq l)"
        "offset - virtualConfirmedOffset (dq l)"]
    show "\<exists>l' resp. selectCase fsize l (Confirm offset) = Next l' resp"
      by (auto simp: selectCase_def internalConfirm_def Let_def
          split: option.splits sum.splits)
  qed
next
  show "(offset = - 1 \<longrightarrow>
      selectCase fsize l (Confirm offset) =
        Next (l\<lparr>dq := (dq l)\<lparr>confirmedOffset := readPos (dq l),
                               virtualConfirmedOffset := virtualReadOffset (dq l)\<rparr>\<rparr>) None) \<and>
   (offset \<noteq> - 1 \<and> offset \<le>s virtualConfirmedOffset (dq l) \<longrightarrow>
      selectCase fsize l (Confirm offset) = Next l None) \<and>
   (offset \<noteq> - 1 \<and> \<not> offset \<le>s virtualConfirmedOffset (dq l) \<and>
    virtualReadOffset (dq l) <s offset \<longrightarrow>
      selectCase fsize l (Confirm offset) = Next l (Some ErrConfirmSizeInvalid)) \<and>
   (offset \<noteq> - 1 \<and> \<not> offset \<le>s virtualConfirmedOffset (dq l) \<and>
    \<not> virtualReadOffset (dq l) <s offset \<longrightarrow>
      (\<forall>p. stepOffset fsize (confirmedOffset (dq l))
              (offset - virtualConfirmedOffset (dq l)) (readPos (dq l)) = Some (Inr p) \<longrightarrow>
           selectCase fsize l (Confirm offset) =
             Next (l\<lparr>dq := (dq l)\<lparr>confirmedOffset := p,
                                    virtualConfirmedOffset := offset\<rparr>\<rparr>) None) \<and>
      (\<forall>e. stepOffset fsize (confirmedOffset (dq l))
              (offset - virtualConfirmedOffset (dq l)) (readPos (dq l)) = Some (Inl e) \<longrightarrow>
           selectCase fsize l (Confirm offset) = Next l (Some ErrConfirmSizeInvalid))) \<and>
   (\<forall>l' e. selectCase fsize l (Confirm offset) = Next l' (Some e) \<longrightarrow>
      l' = l \<and> e = ErrConfirmSizeInvalid)"
    by (auto simp: selectCase_def internalConfirm_def Let_def split: option.splits sum.splits)
qed

theorem confirm_request_witness:
  "selectCase (\<lambda>_. None) (ioLoopStart exampleReader Map.empty) (Confirm 14) =
     Next (ioLoopStart
             (exampleReader\<lparr>confirmedOffset := \<lparr>FileNum = 0, Pos = 14\<rparr>,
                            virtualConfirmedOffset := 14\<rparr>) Map.empty) None
   \<and> selectCase (\<lambda>_. None) (ioLoopStart exampleReader Map.empty) (Confirm (- 1)) =
     Next (ioLoopStart
             (exampleReader\<lparr>confirmedOffset := \<lparr>FileNum = 0, Pos = 28\<rparr>,
                            virtualConfirmedOffset := 28\<rparr>) Map.empty) None
   \<and> selectCase (\<lambda>_. None) (ioLoopStart exampleReader Map.empty) (Confirm 0) =
     Next (ioLoopStart exampleReader Map.empty) None
   \<and> selectCase (\<lambda>_. None) (ioLoopStart exampleReader Map.empty) (Confirm 29) =
     Next (ioLoopStart exampleReader Map.empty) (Some ErrConfirmSizeInvalid)"
  using confirm_request [where offset = 14 and fsize = "\<lambda>_. None"
      and l = "ioLoopStart exampleReader Map.empty"]
    confirm_request [where offset = "- 1" and fsize = "\<lambda>_. None"
      and l = "ioLoopStart exampleReader Map.empty"]
    confirm_request [where offset = 0 and fsize = "\<lambda>_. None"
      and l = "ioLoopStart exampleReader Map.empty"]
    confirm_request [where offset = 29 and fsize = "\<lambda>_. None"
      and l = "ioLoopStart exampleReader Map.empty"]
    example_confirm_step
  by (simp add: ioLoopStart_def exampleReader_def newDiskQueueReader_def retrieveMetaData_def
      word_sle_eq word_sless_alt)

subsection \<open>Stepping by a negative byte count\<close>

text \<open>
  Claim C2 as stated fails: \<^verbatim>\<open>stepOffset\<close> has no test for a negative \<open>step\<close>. From
  \<open>(0, 10)\<close> with the bound \<open>(0, 100)\<close> and \<open>step = -5\<close> it returns the offset \<open>(0, 5)\<close> and
  no error.
\<close>

theorem stepOffset_negative_counterexample:
  "FileNum \<lparr>FileNum = 0, Pos = 10\<rparr> \<le>s FileNum \<lparr>FileNum = 0, Pos = 100\<rparr> \<and> (- 5 :: int64) <s 0 \<and>
   stepOffset (\<lambda>_. None) \<lparr>FileNum = 0, Pos = 10\<rparr> (- 5) \<lparr>FileNum = 0, Pos = 100\<rparr>
     = Some (Inr \<lparr>FileNum = 0, Pos = 5\<rparr>)"
  unfolding stepOffset_def
  by (subst stepLoop.simps) (simp add: GreatThan_def word_sle_eq word_sless_alt)

text \<open>
  Claim C2, amended. Let \<open>cur.FileNum \<le> maxStep.FileNum\<close>, let \<open>step\<close> be negative, and let
  \<open>cur.Pos\<close> be a position of its file: \<open>0 \<le> cur.Pos \<le> fend\<close>, where \<open>fend\<close> is
  \<open>maxStep.Pos\<close> when \<open>cur\<close> lies in the file of \<open>maxStep\<close> and the size \<^verbatim>\<open>os.Stat\<close> reports
  for the file of \<open>cur\<close> otherwise. Then \<^verbatim>\<open>stepOffset\<close> returns no error: it returns the
  offset \<open>(cur.FileNum, cur.Pos + step)\<close>, which lies before \<open>cur\<close> in the same file.
\<close>

theorem stepOffset_negative_step:
  assumes le: "FileNum cur \<le>s FileNum maxStep"
    and neg: "step <s 0"
    and pos: "0 \<le>s Pos cur"
    and fend: "if FileNum cur <s FileNum maxStep then fsize (FileNum cur) = Some fend
               else Pos maxStep = fend"
    and inside: "Pos cur \<le>s fend"
  shows "stepOffset fsize cur step maxStep = Some (Inr (cur\<lparr>Pos := Pos cur + step\<rparr>))
         \<and> Pos cur + step <s Pos cur"
proof -
  have r: "- (2 ^ 63) \<le> sint step" "sint (Pos cur) < 2 ^ 63" "sint fend < 2 ^ 63"
    using sint_range_64 [of step] sint_range_64 [of "Pos cur"] sint_range_64 [of fend]
    by simp_all
  from neg pos inside
  have i: "sint step < 0" "0 \<le> sint (Pos cur)" "sint (Pos cur) \<le> sint fend"
    by (simp_all add: word_sless_alt word_sle_eq)
  have d: "sint (fend - Pos cur) = sint fend - sint (Pos cur)"
    using r i by (intro sint_sub_64) linarith+
  have s: "sint (Pos cur + step) = sint (Pos cur) + sint step"
    using r i by (intro sint_add_64) linarith+
  have nz: "step \<noteq> 0" using neg by auto
  have noroll: "\<not> fend - Pos cur <s step"
    using d i by (simp add: word_sless_alt)
  have before: "Pos cur + step <s Pos cur"
    using s i by (simp add: word_sless_alt)
  have e: "(if FileNum cur <s FileNum maxStep then getCurrentFileEnd fsize cur
            else Inr (Pos maxStep)) = Inr fend"
    using fend by (simp add: getCurrentFileEnd_def split: if_splits)
  have ng: "\<not> GreatThan (cur\<lparr>Pos := Pos cur + step\<rparr>) maxStep"
  proof (cases "FileNum cur <s FileNum maxStep")
    case True
    then show ?thesis by (auto simp: GreatThan_def)
  next
    case False
    with fend have "Pos maxStep = fend" by simp
    with s i have "\<not> Pos maxStep <s Pos cur + step" by (simp add: word_sless_alt)
    with le show ?thesis by (auto simp: GreatThan_def)
  qed
  have "stepLoop fsize cur maxStep cur step = Some (Inr (cur\<lparr>Pos := Pos cur + step\<rparr>))"
    by (subst stepLoop.simps) (simp add: e noroll ng Let_def)
  with le nz before show ?thesis
    by (simp add: stepOffset_def)
qed

theorem stepOffset_negative_step_witness:
  "stepOffset (\<lambda>_. Some 50) \<lparr>FileNum = 0, Pos = 10\<rparr> (- 5) \<lparr>FileNum = 1, Pos = 100\<rparr>
     = Some (Inr \<lparr>FileNum = 0, Pos = 5\<rparr>)
   \<and> (10 :: int64) + (- 5) <s 10"
  using stepOffset_negative_step
    [of "\<lparr>FileNum = 0, Pos = 10\<rparr>" "\<lparr>FileNum = 1, Pos = 100\<rparr>" "- 5" "\<lambda>_. Some 50" 50]
  by (simp add: word_sle_eq word_sless_alt)

subsection \<open>Facts about the example states\<close>

lemma dq_ioLoopStart: "dq (ioLoopStart d ms) = d"
  by (simp add: ioLoopStart_def)

lemma example_positions:
  "readPos exampleReader = \<lparr>FileNum = 0, Pos = 28\<rparr>"
  "endPos exampleReader = \<lparr>FileNum = 0, Pos = 42\<rparr>"
  by (simp_all add: exampleReader_def)

subsection \<open>Skip\<close>

lemma example_skip_step:
  "stepOffset (\<lambda>_. None) \<lparr>FileNum = 0, Pos = 28\<rparr> 7 \<lparr>FileNum = 0, Pos = 42\<rparr>
     = Some (Inr \<lparr>FileNum = 0, Pos = 35\<rparr>)"
  unfolding stepOffset_def by (subst stepLoop.simps) (simp add: GreatThan_def)

text \<open>
  Claim C8. A skip request with the target \<open>v\<close> that the engine receives is answered by
  \<^verbatim>\<open>internalSkipTo\<close>, after which the loop clears \<open>rerr\<close>; it is answered whenever the
  file number of the end position is not the largest \<^verbatim>\<open>int64\<close>. Whatever the answer, the data
  file is closed and no read error is held afterwards. When \<open>v\<close> is greater than
  \<open>virtualEnd\<close> the answer is \<^verbatim>\<open>ErrMoveOffsetInvalid\<close> and no offset field has changed.
  When \<open>v\<close> equals \<open>virtualEnd\<close> the read position becomes the end position. Otherwise
  the read position is stepped by \<open>v - virtualReadOffset\<close> bytes with the end position
  as the bound. On success \<open>virtualReadOffset\<close> is \<open>v\<close>, the confirmed position is the read
  position and the confirmed virtual offset is \<open>v\<close>; when the step returns an error, that
  error is the answer and no offset field has changed.
\<close>

theorem skip_request:
  "(FileNum (endPos (dq l)) <s FileNum (endPos (dq l)) + 1 \<longrightarrow>
      (\<exists>l' resp. selectCase fsize l (SkipTo v) = Next l' resp)) \<and>
   (\<forall>l' resp. selectCase fsize l (SkipTo v) = Next l' resp \<longrightarrow>
      readFile (dq l') = None \<and> rerr l' = None) \<and>
   (virtualEnd (dq l) <s v \<longrightarrow>
      selectCase fsize l (SkipTo v) =
        Next (l\<lparr>dq := (dq l)\<lparr>readFile := None\<rparr>, rerr := None\<rparr>) (Some ErrMoveOffsetInvalid)) \<and>
   (v = virtualEnd (dq l) \<longrightarrow>
      selectCase fsize l (SkipTo v) =
        Next (l\<lparr>dq := (dq l)\<lparr>readFile := None, readPos := endPos (dq l),
                               virtualReadOffset := v, confirmedOffset := endPos (dq l),
                               virtualConfirmedOffset := v\<rparr>,
                rerr := None\<rparr>) None) \<and>
   (\<not> virtualEnd (dq l) <s v \<and> v \<noteq> virtualEnd (dq l) \<longrightarrow>
      (\<forall>p. stepOffset fsize (readPos (dq l)) (v - virtualReadOffset (dq l)) (endPos (dq l))
              = Some (Inr p) \<longrightarrow>
           selectCase fsize l (SkipTo v) =
             Next (l\<lparr>dq := (dq l)\<lparr>readFile := None, readPos := p, virtualReadOffset := v,
                                    confirmedOffset := p, virtualConfirmedOffset := v\<rparr>,
                     rerr := None\<rparr>) None) \<and>
      (\<forall>e. stepOffset fsize (readPos (dq l)) (v - virtualReadOffset (dq l)) (endPos (dq l))
              = Some (Inl e) \<longrightarrow>
           selectCase fsize l (SkipTo v) =
             Next (l\<lparr>dq := (dq l)\<lparr>readFile := None\<rparr>, rerr := None\<rparr>) (Some e)))"
proof (rule conjI)
  show "FileNum (endPos (dq l)) <s FileNum (endPos (dq l)) + 1 \<longrightarrow>
          (\<exists>l' resp. selectCase fsize l (SkipTo v) = Next l' resp)"
  proof
    assume "FileNum (endPos (dq l)) <s FileNum (endPos (dq l)) + 1"
    from stepOffset_returns [OF this, of fsize "readPos (dq l)" "v - virtualReadOffset (dq l)"]
    show "\<exists>l' resp. selectCase fsize l (SkipTo v) = Next l' resp"
      by (auto simp: selectCase_def internalSkipTo_def Let_def
          split: option.splits sum.splits)
  qed
next
  show "(\<forall>l' resp. selectCase fsize l (SkipTo v) = Next l' resp \<longrightarrow>
      readFile (dq l') = None \<and> rerr l' = None) \<and>
   (virtualEnd (dq l) <s v \<longrightarrow>
      selectCase fsize l (SkipTo v) =
        Next (l\<lparr>dq := (dq l)\<lparr>readFile := None\<rparr>, rerr := None\<rparr>) (Some ErrMoveOffsetInvalid)) \<and>
   (v = virtualEnd (dq l) \<longrightarrow>
      selectCase fsize l (SkipTo v) =
        Next (l\<lparr>dq := (dq l)\<lparr>readFile := None, readPos := endPos (dq l),
                               virtualReadOffset := v, confirmedOffset := endPos (dq l),
                               virtualConfirmedOffset := v\<rparr>,
                rerr := None\<rparr>) None) \<and>
   (\<not> virtualEnd (dq l) <s v \<and> v \<noteq> virtualEnd (dq l) \<longrightarrow>
      (\<forall>p. stepOffset fsize (readPos (dq l)) (v - virtualReadOffset (dq l)) (endPos (dq l))
              = Some (Inr p) \<longrightarrow>
           selectCase fsize l (SkipTo v) =
             Next (l\<lparr>dq := (dq l)\<lparr>readFile := None, readPos := p, virtualReadOffset := v,
                                    confirmedOffset := p, virtualConfirmedOffset := v\<rparr>,
                     rerr := None\<rparr>) None) \<and>
      (\<forall>e. stepOffset fsize (readPos (dq l)) (v - virtualReadOffset (dq l)) (endPos (dq l))
              = Some (Inl e) \<longrightarrow>
           selectCase fsize l (SkipTo v) =
             Next (l\<lparr>dq := (dq l)\<lparr>readFile := None\<rparr>, rerr := None\<rparr>) (Some e)))"
    by (auto simp: selectCase_def internalSkipTo_def Let_def split: option.splits sum.splits)
qed

theorem skip_request_witness:
  "selectCase (\<lambda>_. None)
      ((ioLoopStart (exampleReader\<lparr>readFile := Some \<lparr>hFile = 0, hPos = 28\<rparr>\<rparr>) Map.empty)
         \<lparr>rerr := Some InvalidMsgSize\<rparr>) (SkipTo 35) =
     Next (ioLoopStart
             (exampleReader\<lparr>readPos := \<lparr>FileNum = 0, Pos = 35\<rparr>, virtualReadOffset := 35,
                            confirmedOffset := \<lparr>FileNum = 0, Pos = 35\<rparr>,
                            virtualConfirmedOffset := 35\<rparr>) Map.empty) None
   \<and> selectCase (\<lambda>_. None) (ioLoopStart exampleReader Map.empty) (SkipTo 42) =
     Next (ioLoopStart
             (exampleReader\<lparr>readPos := \<lparr>FileNum = 0, Pos = 42\<rparr>, virtualReadOffset := 42,
                            confirmedOffset := \<lparr>FileNum = 0, Pos = 42\<rparr>,
                            virtualConfirmedOffset := 42\<rparr>) Map.empty) None
   \<and> selectCase (\<lambda>_. None) (ioLoopStart exampleReader Map.empty) (SkipTo 43) =
     Next (ioLoopStart exampleReader Map.empty) (Some ErrMoveOffsetInvalid)"
  using
    skip_request [where fsize = "\<lambda>_. None" and v = 35
      and l = "(ioLoopStart (exampleReader\<lparr>readFile := Some \<lparr>hFile = 0, hPos = 28\<rparr>\<rparr>)
                  Map.empty)\<lparr>rerr := Some InvalidMsgSize\<rparr>"]
    skip_request [where fsize = "\<lambda>_. None" and v = 42
      and l = "ioLoopStart exampleReader Map.empty"]
    skip_request [where fsize = "\<lambda>_. None" and v = 43
      and l = "ioLoopStart exampleReader Map.empty"]
    example_skip_step
  by (simp add: ioLoopStart_def exampleReader_def newDiskQueueReader_def retrieveMetaData_def
      word_sle_eq word_sless_alt)

subsection \<open>End of the queue\<close>

text \<open>
  Claim C6. An end update with the descriptor \<open>e\<close> that the engine receives leaves
  \<open>endPos = (e.EndFileNum, e.EndPos)\<close>, \<open>virtualEnd = e.VirtualEnd\<close> and
  \<open>totalMsgCnt = e.TotalMsgCnt\<close>. A read position greater than the new end becomes the
  new end, any other read position stays, so that afterwards the read position is at
  most the end position in the lexicographic order on file number and position. When
  \<open>e.EndFileNum\<close> differs from the file number of the old end position and \<open>e.EndPos\<close> is
  \<open>0\<close>, \<open>needSync\<close> is set.
\<close>

theorem end_update:
  "selectCase fsize l (EndUpdated e) = Next (endUpdated l e) None \<and>
   endPos (dq (endUpdated l e)) = \<lparr>FileNum = EndFileNum e, Pos = EndPos e\<rparr> \<and>
   virtualEnd (dq (endUpdated l e)) = VirtualEnd e \<and>
   totalMsgCnt (dq (endUpdated l e)) = TotalMsgCnt e \<and>
   (GreatThan (readPos (dq l)) \<lparr>FileNum = EndFileNum e, Pos = EndPos e\<rparr> \<longrightarrow>
      readPos (dq (endUpdated l e)) = \<lparr>FileNum = EndFileNum e, Pos = EndPos e\<rparr>) \<and>
   (\<not> GreatThan (readPos (dq l)) \<lparr>FileNum = EndFileNum e, Pos = EndPos e\<rparr> \<longrightarrow>
      readPos (dq (endUpdated l e)) = readPos (dq l)) \<and>
   (FileNum (readPos (dq (endUpdated l e))) <s FileNum (endPos (dq (endUpdated l e))) \<or>
    FileNum (readPos (dq (endUpdated l e))) = FileNum (endPos (dq (endUpdated l e))) \<and>
    Pos (readPos (dq (endUpdated l e))) \<le>s Pos (endPos (dq (endUpdated l e)))) \<and>
   (FileNum (endPos (dq l)) \<noteq> EndFileNum e \<and> EndPos e = 0 \<longrightarrow>
      needSync (dq (endUpdated l e)))"
  by (auto simp: selectCase_def endUpdated_def Let_def GreatThan_def
      signed.not_less signed.le_less)

theorem end_update_witness:
  "readPos (dq (endUpdated (ioLoopStart exampleReader Map.empty)
      \<lparr>EndFileNum = 0, EndPos = 20, VirtualEnd = 20, TotalMsgCnt = 2\<rparr>)) = \<lparr>FileNum = 0, Pos = 20\<rparr>
   \<and> endPos (dq (endUpdated (ioLoopStart exampleReader Map.empty)
      \<lparr>EndFileNum = 0, EndPos = 20, VirtualEnd = 20, TotalMsgCnt = 2\<rparr>)) = \<lparr>FileNum = 0, Pos = 20\<rparr>
   \<and> readPos (dq (endUpdated (ioLoopStart exampleReader Map.empty)
      \<lparr>EndFileNum = 1, EndPos = 0, VirtualEnd = 42, TotalMsgCnt = 3\<rparr>)) = \<lparr>FileNum = 0, Pos = 28\<rparr>
   \<and> needSync (dq (endUpdated (ioLoopStart exampleReader Map.empty)
      \<lparr>EndFileNum = 1, EndPos = 0, VirtualEnd = 42, TotalMsgCnt = 3\<rparr>))"
  using
    end_update [of "\<lambda>_. None" "ioLoopStart exampleReader Map.empty"
      "\<lparr>EndFileNum = 0, EndPos = 20, VirtualEnd = 20, TotalMsgCnt = 2\<rparr>"]
    end_update [of "\<lambda>_. None" "ioLoopStart exampleReader Map.empty"
      "\<lparr>EndFileNum = 1, EndPos = 0, VirtualEnd = 42, TotalMsgCnt = 3\<rparr>"]
  by (simp add: dq_ioLoopStart example_positions GreatThan_def word_sless_alt)

subsection \<open>The confirm window of a new reader\<close>

lemma fold_operands_preserve:
  assumes "\<And>store v d. (store, v) \<in> set ps \<Longrightarrow> f (store v d) = f d"
  shows "f (fold (\<lambda>(store, v) d. store v d) ps d) = f d"
  using assms by (induction ps arbitrary: d) auto

lemma storeOperands_maxConfirmWin: "maxConfirmWin (storeOperands vals d) = maxConfirmWin d"
  unfolding storeOperands_def
proof (rule fold_operands_preserve)
  fix store v d
  assume "(store, v) \<in> set (zip metaOperands vals)"
  then have "store \<in> set metaOperands" by (rule set_zip_leftD)
  then show "maxConfirmWin (store v d) = maxConfirmWin d"
    by (auto simp: metaOperands_def)
qed

text \<open>
  Claim C10. Whatever the arguments of \<^verbatim>\<open>newDiskQueueReader\<close> and whatever the metadata
  file holds, the reader it returns has \<open>maxConfirmWin = 10000\<close>.
\<close>

theorem newDiskQueueReader_maxConfirmWin:
  "maxConfirmWin (newDiskQueueReader ms readFrom' metaname dataPath' maxBytesPerFile' minMsgSize'
      maxMsgSize' syncEvery' syncTimeout' autoSkip) = 10000"
  by (simp add: newDiskQueueReader_def retrieveMetaData_def Let_def storeOperands_maxConfirmWin
      split: option.splits prod.splits)

theorem newDiskQueueReader_maxConfirmWin_witness:
  "maxConfirmWin (newDiskQueueReader Map.empty ''topic'' ''channel'' ''/data'' 100 0 1000 10 10 True)
     = 10000"
  using newDiskQueueReader_maxConfirmWin
    [of Map.empty "''topic''" "''channel''" "''/data''" 100 0 1000 10 10 True]
  by simp

subsection \<open>Calls after the exit flag is set\<close>

text \<open>
  Claim C9 as stated fails for \<^verbatim>\<open>UpdateQueueEnd\<close>: the method has no result, so with the
  exit flag set it returns without an error. The call is not handed to the engine and the
  engine's variables stay as they are, but the outcome is not an \<open>Exiting\<close> error.
\<close>

theorem exit_flag_counterexample:
  "exitFlag (exampleReader\<lparr>exitFlag := 1\<rparr>) = 1 \<and>
   UpdateQueueEnd (exampleReader\<lparr>exitFlag := 1\<rparr>)
     (DiskQueueEnd (Some \<lparr>EndFileNum = 0, EndPos = 56, VirtualEnd = 56, TotalMsgCnt = 4\<rparr>)) = None \<and>
   servedUpdate (\<lambda>_. None) (ioLoopStart (exampleReader\<lparr>exitFlag := 1\<rparr>) Map.empty)
     (UpdateQueueEnd (exampleReader\<lparr>exitFlag := 1\<rparr>)
        (DiskQueueEnd (Some \<lparr>EndFileNum = 0, EndPos = 56, VirtualEnd = 56, TotalMsgCnt = 4\<rparr>)))
     = Next (ioLoopStart (exampleReader\<lparr>exitFlag := 1\<rparr>) Map.empty) None \<and>
   servedUpdate (\<lambda>_. None) (ioLoopStart (exampleReader\<lparr>exitFlag := 1\<rparr>) Map.empty)
     (UpdateQueueEnd (exampleReader\<lparr>exitFlag := 1\<rparr>)
        (DiskQueueEnd (Some \<lparr>EndFileNum = 0, EndPos = 56, VirtualEnd = 56, TotalMsgCnt = 4\<rparr>)))
     \<noteq> Next (ioLoopStart (exampleReader\<lparr>exitFlag := 1\<rparr>) Map.empty) (Some Exiting)"
  by (simp add: UpdateQueueEnd_def servedUpdate_def)

text \<open>
  Claim C9, amended. With the exit flag set, \<^verbatim>\<open>ConfirmRead\<close>, \<^verbatim>\<open>SkipReadToOffset\<close> and
  \<^verbatim>\<open>SkipToEnd\<close> return the error \<open>Exiting\<close> at once and \<^verbatim>\<open>UpdateQueueEnd\<close> returns at once
  without an error; none of the four calls is handed to the engine, and the variables
  of the engine, the reader among them, stay as they are.
\<close>

theorem exit_flag:
  assumes "exitFlag (dq l) = 1"
  shows "ConfirmRead (dq l) offset = Inl Exiting \<and>
         served fsize l (ConfirmRead (dq l) offset) = Next l (Some Exiting) \<and>
         SkipReadToOffset (dq l) offset = Inl Exiting \<and>
         served fsize l (SkipReadToOffset (dq l) offset) = Next l (Some Exiting) \<and>
         SkipToEnd (dq l) = Inl Exiting \<and>
         served fsize l (SkipToEnd (dq l)) = Next l (Some Exiting) \<and>
         UpdateQueueEnd (dq l) e = None \<and>
         servedUpdate fsize l (UpdateQueueEnd (dq l) e) = Next l None"
  using assms
  by (simp add: ConfirmRead_def SkipReadToOffset_def SkipToEnd_def UpdateQueueEnd_def
      served_def servedUpdate_def split: BackendQueueEnd.splits option.splits)

theorem exit_flag_witness:
  "served (\<lambda>_. None) (ioLoopStart (exampleReader\<lparr>exitFlag := 1\<rparr>) Map.empty)
     (ConfirmRead (exampleReader\<lparr>exitFlag := 1\<rparr>) 14)
     = Next (ioLoopStart (exampleReader\<lparr>exitFlag := 1\<rparr>) Map.empty) (Some Exiting)
   \<and> served (\<lambda>_. None) (ioLoopStart (exampleReader\<lparr>exitFlag := 1\<rparr>) Map.empty)
     (SkipReadToOffset (exampleReader\<lparr>exitFlag := 1\<rparr>) 14)
     = Next (ioLoopStart (exampleReader\<lparr>exitFlag := 1\<rparr>) Map.empty) (Some Exiting)
   \<and> served (\<lambda>_. None) (ioLoopStart (exampleReader\<lparr>exitFlag := 1\<rparr>) Map.empty)
     (SkipToEnd (exampleReader\<lparr>exitFlag := 1\<rparr>))
     = Next (ioLoopStart (exampleReader\<lparr>exitFlag := 1\<rparr>) Map.empty) (Some Exiting)
   \<and> servedUpdate (\<lambda>_. None) (ioLoopStart (exampleReader\<lparr>exitFlag := 1\<rparr>) Map.empty)
     (UpdateQueueEnd (exampleReader\<lparr>exitFlag := 1\<rparr>)
        (DiskQueueEnd (Some \<lparr>EndFileNum = 0, EndPos = 56, VirtualEnd = 56, TotalMsgCnt = 4\<rparr>)))
     = Next (ioLoopStart (exampleReader\<lparr>exitFlag := 1\<rparr>) Map.empty) None"
proof -
  have d: "dq (ioLoopStart (exampleReader\<lparr>exitFlag := 1\<rparr>) Map.empty) = exampleReader\<lparr>exitFlag := 1\<rparr>"
    by (simp add: ioLoopStart_def)
  have h: "exitFlag (dq (ioLoopStart (exampleReader\<lparr>exitFlag := 1\<rparr>) Map.empty)) = 1"
    by (simp add: d)
  show ?thesis
    using exit_flag [OF h, of 14 "\<lambda>_. None"
      "DiskQueueEnd (Some \<lparr>EndFileNum = 0, EndPos = 56, VirtualEnd = 56, TotalMsgCnt = 4\<rparr>)"]
    unfolding d by blast
qed

subsection \<open>The tail check after a delivery\<close>

text \<open>
  Where the read position is not in a later file than the end position, the check does
  what its log message says: a read position greater than the end position is forced to
  the end and \<open>needSync\<close> is set, and any other state stays as it is.
\<close>

lemma tail_check_in_order:
  assumes ord: "FileNum (readPos d) \<le>s FileNum (endPos d)"
  shows "checkTailCorruption d =
     (if GreatThan (readPos d) (endPos d)
      then d\<lparr>readFile := None, readPos := endPos d, virtualReadOffset := virtualEnd d,
             confirmedOffset := endPos d, virtualConfirmedOffset := virtualEnd d,
             needSync := True\<rparr>
      else d)"
proof (cases "FileNum (readPos d) <s FileNum (endPos d) \<or> Pos (readPos d) <s Pos (endPos d)")
  case True
  then have "\<not> GreatThan (readPos d) (endPos d)"
    using ord by (auto simp: GreatThan_def)
  with True show ?thesis by (simp add: checkTailCorruption_def)
next
  case False
  with ord have fn: "FileNum (readPos d) = FileNum (endPos d)"
    and ps: "Pos (endPos d) \<le>s Pos (readPos d)"
    by (auto simp: signed.not_less signed.le_less)
  show ?thesis
  proof (cases "readPos d = endPos d")
    case True
    then have "\<not> GreatThan (readPos d) (endPos d)" by (simp add: GreatThan_def)
    with True False show ?thesis by (simp add: checkTailCorruption_def)
  next
    case ne: False
    with fn have "Pos (readPos d) \<noteq> Pos (endPos d)"
      by (auto intro: diskQueueOffset.equality)
    with ps have "Pos (endPos d) <s Pos (readPos d)" by (simp add: signed.le_less)
    with fn have g: "GreatThan (readPos d) (endPos d)" by (simp add: GreatThan_def)
    have "checkTailCorruption d = (skipToEndofFile d)\<lparr>needSync := True\<rparr>"
      using False ne by (simp add: checkTailCorruption_def)
    with g show ?thesis by (simp add: skipToEndofFile_def Let_def)
  qed
qed

text \<open>
  Claim C5 does not hold of the code. With the read position \<open>(2, 14)\<close> and the end
  position \<open>(1, 500)\<close> the read position is greater than the end position, yet
  \<^verbatim>\<open>checkTailCorruption\<close> returns at its first test, because \<open>14 < 500\<close>, and the delivery
  leaves the reader as it was: the read position is not forced to the end and
  \<open>needSync\<close> is not set.
\<close>

theorem tail_check_misses:
  "GreatThan \<lparr>FileNum = 2, Pos = 14\<rparr> \<lparr>FileNum = 1, Pos = 500\<rparr> \<and>
   checkTailCorruption
     (exampleReader\<lparr>readPos := \<lparr>FileNum = 2, Pos = 14\<rparr>, endPos := \<lparr>FileNum = 1, Pos = 500\<rparr>\<rparr>)
     = exampleReader\<lparr>readPos := \<lparr>FileNum = 2, Pos = 14\<rparr>, endPos := \<lparr>FileNum = 1, Pos = 500\<rparr>\<rparr> \<and>
   selectCase (\<lambda>_. None)
     ((ioLoopStart
        (exampleReader\<lparr>readPos := \<lparr>FileNum = 2, Pos = 14\<rparr>,
                       endPos := \<lparr>FileNum = 1, Pos = 500\<rparr>\<rparr>) Map.empty)
        \<lparr>rArmed := True, continueRead := False\<rparr>) Delivered
     = Next (ioLoopStart
        (exampleReader\<lparr>readPos := \<lparr>FileNum = 2, Pos = 14\<rparr>,
                       endPos := \<lparr>FileNum = 1, Pos = 500\<rparr>\<rparr>) Map.empty
        \<lparr>rArmed := True\<rparr>) None"
  by (simp add: checkTailCorruption_def GreatThan_def selectCase_def afterDelivery_def
      ioLoopStart_def exampleReader_def word_sle_eq word_sless_alt)

subsection \<open>The readiness decision\<close>

text \<open>
  Claim C4 as stated fails. The test of the loop is
  \<open>virtualConfirmedOffset + maxConfirmWin < virtualReadOffset\<close>, so with
  \<open>virtualReadOffset - virtualConfirmedOffset\<close> equal to \<open>maxConfirmWin\<close> the window does not
  hold the output back: no read error is held, the read position is below the end, and
  the channel is armed although \<open>virtualReadOffset - virtualConfirmedOffset \<ge> maxConfirmWin\<close>.
\<close>

theorem readiness_window_counterexample:
  "rerr ((ioLoopStart windowReader Map.empty)\<lparr>continueRead := False\<rparr>) = None \<and>
   maxConfirmWin windowReader \<le>s virtualReadOffset windowReader - virtualConfirmedOffset windowReader \<and>
   GreatThan (endPos windowReader) (readPos windowReader) \<and>
   readiness (\<lambda>_. None) ((ioLoopStart windowReader Map.empty)\<lparr>continueRead := False\<rparr>)
     = AtSelect ((ioLoopStart windowReader Map.empty)\<lparr>continueRead := False, rArmed := True\<rparr>) \<and>
   selectCase (\<lambda>_. None)
     ((ioLoopStart windowReader Map.empty)\<lparr>continueRead := False, rArmed := True\<rparr>) Delivered
     \<noteq> Blocked"
  by (simp add: readiness_def selectCase_def ioLoopStart_def windowReader_def exampleReader_def
      newDiskQueueReader_def retrieveMetaData_def GreatThan_def word_sle_eq word_sless_alt)

lemma lex_less_same_order:
  "FileNum rp \<le>s FileNum ep \<Longrightarrow>
   (FileNum rp <s FileNum ep \<or> Pos rp <s Pos ep) = GreatThan ep rp"
  by (auto simp: GreatThan_def)

text \<open>
  Claim C4, amended. In every iteration of the engine loop that reaches the \<^verbatim>\<open>select\<close>
  and starts with \<open>readPos.FileNum \<le> endPos.FileNum\<close>, the output channel is armed (the
  delivery can be chosen) if and only if, on the variables as they are at the readiness
  decision, (a) no read error is held, (b) it is not the case that
  \<open>virtualConfirmedOffset + maxConfirmWin < virtualReadOffset\<close>, and (c) the read
  position is less than the end position in the lexicographic order on file number and
  position. In particular the delivery cannot be chosen in an iteration that starts with
  \<open>virtualConfirmedOffset + maxConfirmWin < virtualReadOffset\<close>.
\<close>

theorem readiness_armed:
  assumes sel: "readiness files l = AtSelect l'"
    and ord: "FileNum (readPos (dq l)) \<le>s FileNum (endPos (dq l))"
  shows "(selectCase fsize l' Delivered \<noteq> Blocked) = rArmed l' \<and>
         rArmed l' =
           (rerr l = None \<and>
            \<not> virtualConfirmedOffset (dq l) + maxConfirmWin (dq l) <s virtualReadOffset (dq l) \<and>
            GreatThan (endPos (dq l)) (readPos (dq l))) \<and>
         (virtualConfirmedOffset (dq l) + maxConfirmWin (dq l) <s virtualReadOffset (dq l)
            \<longrightarrow> selectCase fsize l' Delivered = Blocked)"
proof -
  have a: "(selectCase fsize l' Delivered \<noteq> Blocked) = rArmed l'"
    by (simp add: selectCase_def)
  have b: "rArmed l' =
           (rerr l = None \<and>
            \<not> virtualConfirmedOffset (dq l) + maxConfirmWin (dq l) <s virtualReadOffset (dq l) \<and>
            (FileNum (readPos (dq l)) <s FileNum (endPos (dq l)) \<or>
             Pos (readPos (dq l)) <s Pos (endPos (dq l))))"
    using sel
    by (auto simp: readiness_def Let_def split: if_splits readOutcome.splits)
  from a b show ?thesis
    unfolding lex_less_same_order [OF ord] by blast
qed

theorem readiness_armed_witness:
  "readiness (\<lambda>_. None)
      ((ioLoopStart exampleReader Map.empty)\<lparr>continueRead := False\<rparr>)
     = AtSelect ((ioLoopStart exampleReader Map.empty)\<lparr>continueRead := False, rArmed := True\<rparr>)
   \<and> selectCase (\<lambda>_. None)
      ((ioLoopStart exampleReader Map.empty)\<lparr>continueRead := False, rArmed := True\<rparr>) Delivered
     \<noteq> Blocked
   \<and> rerr ((ioLoopStart exampleReader Map.empty)\<lparr>continueRead := False\<rparr>) = None
   \<and> \<not> virtualConfirmedOffset exampleReader + maxConfirmWin exampleReader
         <s virtualReadOffset exampleReader
   \<and> GreatThan (endPos exampleReader) (readPos exampleReader)"
proof -
  have r: "readiness (\<lambda>_. None)
      ((ioLoopStart exampleReader Map.empty)\<lparr>continueRead := False\<rparr>)
     = AtSelect ((ioLoopStart exampleReader Map.empty)\<lparr>continueRead := False, rArmed := True\<rparr>)"
    by (simp add: readiness_def ioLoopStart_def exampleReader_def newDiskQueueReader_def
        retrieveMetaData_def word_sle_eq word_sless_alt)
  have o: "FileNum (readPos (dq ((ioLoopStart exampleReader Map.empty)\<lparr>continueRead := False\<rparr>)))
           \<le>s FileNum (endPos (dq ((ioLoopStart exampleReader Map.empty)\<lparr>continueRead := False\<rparr>)))"
    by (simp add: ioLoopStart_def exampleReader_def)
  have a: "rArmed ((ioLoopStart exampleReader Map.empty)\<lparr>continueRead := False, rArmed := True\<rparr>)"
    by simp
  have d: "dq ((ioLoopStart exampleReader Map.empty)\<lparr>continueRead := False\<rparr>) = exampleReader"
    by (simp add: ioLoopStart_def)
  from readiness_armed [OF r o, of "\<lambda>_. None"] a r show ?thesis
    unfolding d by blast
qed

subsection \<open>The metadata file, written and read\<close>

lemma digitVal_digitChar: "n < 10 \<Longrightarrow> digitVal (digitChar n) = Some n"
  by (simp add: digitVal_def digitChar_def Let_def)

lemma digitVal_separators: "digitVal newline = None" "digitVal CHR '','' = None"
  by (simp_all add: digitVal_def newline_def)

lemma digitChar_plain:
  "n < 10 \<Longrightarrow> \<not> isBlank (digitChar n) \<and> digitChar n \<noteq> CHR ''-'' \<and> digitChar n \<noteq> CHR ''+''"
  by (auto simp: isBlank_def digitVal_def dest!: digitVal_digitChar)

lemma minus_not_blank: "\<not> isBlank CHR ''-''"
  by (simp add: isBlank_def)

lemma scanDigits_natDigits:
  "scanDigits (natDigits n @ rest) acc = scanDigits rest (acc * 10 ^ length (natDigits n) + n)"
proof (induction n arbitrary: rest acc rule: natDigits.induct)
  case (1 n)
  show ?case
  proof (cases "n < 10")
    case True
    then show ?thesis
      by (subst (1 2) natDigits.simps) (simp add: digitVal_digitChar mult.commute)
  next
    case False
    have m: "n mod 10 < 10" by simp
    have "scanDigits (natDigits n @ rest) acc
            = scanDigits (natDigits (n div 10) @ digitChar (n mod 10) # rest) acc"
      using False by (subst natDigits.simps) simp
    also have "\<dots> = scanDigits (digitChar (n mod 10) # rest)
                        (acc * 10 ^ length (natDigits (n div 10)) + n div 10)"
      using False by (rule "1.IH")
    also have "\<dots> = scanDigits rest
                        (10 * (acc * 10 ^ length (natDigits (n div 10)) + n div 10) + n mod 10)"
      by (simp add: digitVal_digitChar [OF m])
    also have "10 * (acc * 10 ^ length (natDigits (n div 10)) + n div 10) + n mod 10
                 = acc * 10 ^ length (natDigits n) + n"
      using False by (subst (2) natDigits.simps) (simp add: algebra_simps)
    finally show ?thesis .
  qed
qed

lemma natDigits_first:
  "\<exists>k cs. k < 10 \<and> natDigits n = digitChar k # cs"
proof (induction n rule: natDigits.induct)
  case (1 n)
  show ?case
  proof (cases "n < 10")
    case True
    then show ?thesis by (subst natDigits.simps) auto
  next
    case False
    with "1.IH" obtain k cs where "k < 10" "natDigits (n div 10) = digitChar k # cs" by blast
    with False show ?thesis by (subst natDigits.simps) auto
  qed
qed

lemma scanInt_formatInt64:
  assumes "digitVal c = None"
  shows "scanInt (formatInt64 w @ c # cs) = Some (w, c # cs)"
proof -
  obtain k ds where k: "k < 10" and ds: "natDigits (nat \<bar>sint w\<bar>) = digitChar k # ds"
    using natDigits_first by blast
  have stop: "\<And>n. scanDigits (c # cs) n = (n, c # cs)"
    using assms by simp
  have whole: "scanDigits (digitChar k # ds @ c # cs) 0 = (nat \<bar>sint w\<bar>, c # cs)"
    using scanDigits_natDigits [of "nat \<bar>sint w\<bar>" "c # cs" 0] stop by (simp add: ds)
  show ?thesis
  proof (cases "sint w < 0")
    case True
    then have f: "formatInt64 w = CHR ''-'' # digitChar k # ds"
      using ds by (simp add: formatInt64_def)
    have i: "- int (nat \<bar>sint w\<bar>) = sint w" using True by simp
    show ?thesis
      using sint_range_64 [of w] whole k True
      by (simp add: f scanInt_def scanSign_def minus_not_blank digitVal_digitChar i
          del: scanDigits.simps)
  next
    case False
    then have f: "formatInt64 w = digitChar k # ds"
      using ds by (simp add: formatInt64_def)
    have i: "int (nat \<bar>sint w\<bar>) = sint w" using False by simp
    show ?thesis
      using sint_range_64 [of w] whole k False digitChar_plain [OF k]
      by (simp add: f scanInt_def scanSign_def digitVal_digitChar i del: scanDigits.simps)
  qed
qed

lemma scanLit_here:
  "scanLit newline (newline # cs) = Some cs"
  "scanLit CHR '','' (CHR '','' # cs) = Some cs"
  by (simp_all add: scanLit_def isBlank_def newline_def)

lemma Fscanf_metaText:
  "Fscanf metaFormat (metaText d) [] =
     ([totalMsgCnt d, FileNum (confirmedOffset d), Pos (confirmedOffset d),
       virtualConfirmedOffset d, FileNum (endPos d), Pos (endPos d), virtualEnd d], None)"
  by (simp add: metaFormat_def metaText_def scanInt_formatInt64 digitVal_separators scanLit_here)

lemma retrieve_persisted:
  assumes "metaDataFileName d0 = metaDataFileName d"
  shows "retrieveMetaData d0 (fst (persistMetaData True d ms)) =
     (d0\<lparr>totalMsgCnt := totalMsgCnt d, confirmedOffset := confirmedOffset d,
         virtualConfirmedOffset := virtualConfirmedOffset d, endPos := endPos d,
         virtualEnd := virtualEnd d, readPos := confirmedOffset d,
         virtualReadOffset := virtualConfirmedOffset d\<rparr>, None)"
  using assms
  by (simp add: retrieveMetaData_def persistMetaData_def Fscanf_metaText storeOperands_def
      metaOperands_def)

text \<open>The text of an example, scanned as a whole and with a letter in the third number.\<close>

lemma example_metaText:
  "metaText confirmedReader = 
   CHR ''3'' # newline # ''0,14,14'' @ newline # ''0,42,42'' @ [newline]"
  by code_simp

lemma example_Fscanf:
  "Fscanf metaFormat (CHR ''3'' # newline # ''0,14,14'' @ newline # ''0,42,42'' @ [newline]) []
  = ([3,0,14,14,0,42,42], None)"
  by (simp add: metaFormat_def scanInt_def scanLit_def scanSign_def isBlank_def digitVal_def newline_def)

lemma example_Fscanf_error:
  "Fscanf metaFormat (CHR ''3'' # newline # ''0,14,x14'' @ newline # ''0,42,42'' @ [newline]) []
  = ([3,0,14], Some OSError)"
  by (simp add: metaFormat_def scanInt_def scanLit_def scanSign_def isBlank_def digitVal_def newline_def)

text \<open>
  Claim C7. Let \<^verbatim>\<open>persistMetaData\<close> write the metadata of a reader \<open>d\<close> (the operating
  system carrying the write out), and let \<^verbatim>\<open>newDiskQueueReader\<close> then build a fresh
  reader with the same \<^verbatim>\<open>dataPath\<close> and \<^verbatim>\<open>readerMetaName\<close>, so that its
  \<^verbatim>\<open>retrieveMetaData\<close> reads that file. The fresh reader has the \<open>totalMsgCnt\<close>,
  \<open>confirmedOffset\<close>, \<open>virtualConfirmedOffset\<close>, \<open>endPos\<close> and \<open>virtualEnd\<close> that \<open>d\<close> had
  when they were written, its read position is its confirmed position and its read
  virtual offset is its confirmed virtual offset.
\<close>

theorem metadata_round_trip:
  "snd (persistMetaData True d ms) = None \<and>
   (let d' = newDiskQueueReader (fst (persistMetaData True d ms)) readFrom' (readerMetaName d)
               (dataPath d) maxBytesPerFile' minMsgSize' maxMsgSize' syncEvery' syncTimeout'
               autoSkip
    in totalMsgCnt d' = totalMsgCnt d \<and>
       confirmedOffset d' = confirmedOffset d \<and>
       virtualConfirmedOffset d' = virtualConfirmedOffset d \<and>
       endPos d' = endPos d \<and>
       virtualEnd d' = virtualEnd d \<and>
       readPos d' = confirmedOffset d' \<and>
       virtualReadOffset d' = virtualConfirmedOffset d')"
proof -
  have "snd (persistMetaData True d ms) = None"
    by (simp add: persistMetaData_def)
  moreover have "metaDataFileName
      \<lparr>readPos = \<lparr>FileNum = 0, Pos = 0\<rparr>, endPos = \<lparr>FileNum = 0, Pos = 0\<rparr>,
       virtualReadOffset = 0, virtualEnd = 0, depth = 0, totalMsgCnt = 0,
       readerMetaName = readerMetaName d, readFrom = readFrom', dataPath = dataPath d,
       maxBytesPerFile = maxBytesPerFile', minMsgSize = minMsgSize', maxMsgSize = maxMsgSize',
       syncEvery = syncEvery', syncTimeout = syncTimeout', exitFlag = 0, needSync = False,
       nextReadPos = \<lparr>FileNum = 0, Pos = 0\<rparr>, confirmedOffset = \<lparr>FileNum = 0, Pos = 0\<rparr>,
       virtualConfirmedOffset = 0, readFile = None, autoSkipError = autoSkip,
       maxConfirmWin = 10000\<rparr> = metaDataFileName d"
    by (simp add: metaDataFileName_def)
  ultimately show ?thesis
    by (simp add: newDiskQueueReader_def retrieve_persisted Let_def)
qed

theorem metadata_round_trip_witness:
  "confirmedOffset (newDiskQueueReader (fst (persistMetaData True confirmedReader Map.empty))
      ''topic'' ''channel'' ''/data'' 100 0 1000 10 10 False) = \<lparr>FileNum = 0, Pos = 14\<rparr>
   \<and> readPos (newDiskQueueReader (fst (persistMetaData True confirmedReader Map.empty))
      ''topic'' ''channel'' ''/data'' 100 0 1000 10 10 False) = \<lparr>FileNum = 0, Pos = 14\<rparr>
   \<and> virtualReadOffset (newDiskQueueReader (fst (persistMetaData True confirmedReader Map.empty))
      ''topic'' ''channel'' ''/data'' 100 0 1000 10 10 False) = 14
   \<and> endPos (newDiskQueueReader (fst (persistMetaData True confirmedReader Map.empty))
      ''topic'' ''channel'' ''/data'' 100 0 1000 10 10 False) = \<lparr>FileNum = 0, Pos = 42\<rparr>
   \<and> totalMsgCnt (newDiskQueueReader (fst (persistMetaData True confirmedReader Map.empty))
      ''topic'' ''channel'' ''/data'' 100 0 1000 10 10 False) = 3"
proof -
  have n: "readerMetaName confirmedReader = ''channel''" "dataPath confirmedReader = ''/data''"
    by (simp_all add: confirmedReader_def exampleReader_def newDiskQueueReader_def
        retrieveMetaData_def)
  have v: "confirmedOffset confirmedReader = \<lparr>FileNum = 0, Pos = 14\<rparr>"
    "virtualConfirmedOffset confirmedReader = 14"
    "endPos confirmedReader = \<lparr>FileNum = 0, Pos = 42\<rparr>" "totalMsgCnt confirmedReader = 3"
    by (simp_all add: confirmedReader_def exampleReader_def)
  from metadata_round_trip [of confirmedReader Map.empty "''topic''" 100 0 1000 10 10 False]
  show ?thesis
    unfolding n v Let_def by simp
qed

subsection \<open>Additivity of stepping\<close>

text \<open>
  Induction over a run of the loop of \<^verbatim>\<open>stepOffset\<close> that returns an offset: the run
  either stays in the file of \<open>newOffset\<close> and returns, or rolls over to the next file and
  goes on from there.
\<close>

lemma stepLoop_Inr_induct [consumes 1, case_names stay roll]:
  assumes run: "stepLoop fsize c M p s = Some (Inr y)"
    and stay: "\<And>p s fend.
      \<lbrakk>(if FileNum c <s FileNum M then getCurrentFileEnd fsize p else Inr (Pos M)) = Inr fend;
       \<not> fend - Pos p <s s; \<not> GreatThan (p\<lparr>Pos := Pos p + s\<rparr>) M\<rbrakk>
      \<Longrightarrow> P p s (p\<lparr>Pos := Pos p + s\<rparr>)"
    and roll: "\<And>p s fend y.
      \<lbrakk>(if FileNum c <s FileNum M then getCurrentFileEnd fsize p else Inr (Pos M)) = Inr fend;
       fend - Pos p <s s; \<not> GreatThan (p\<lparr>FileNum := FileNum p + 1, Pos := 0\<rparr>) M;
       stepLoop fsize c M (p\<lparr>FileNum := FileNum p + 1, Pos := 0\<rparr>) (s - (fend - Pos p))
         = Some (Inr y);
       P (p\<lparr>FileNum := FileNum p + 1, Pos := 0\<rparr>) (s - (fend - Pos p)) y\<rbrakk>
      \<Longrightarrow> P p s y"
  shows "P p s y"
proof -
  have "fsize' = fsize \<and> c' = c \<and> M' = M \<longrightarrow>
          stepLoop fsize c M p s = Some r \<and> (\<forall>y. r = Inr y \<longrightarrow> P p s y)"
    if "stepLoop fsize' c' M' p s = Some r" for fsize' c' M' r
    using that
  proof (induction fsize' c' M' p s r rule: stepLoop.raw_induct [rotated 1, consumes 1, case_names 1])
    case (1 loop fsize' c' M' p s r)
    show ?case
    proof (intro impI, elim conjE)
      assume eq: "fsize' = fsize" "c' = c" "M' = M"
      note body = "1.hyps" [unfolded eq]
      let ?fe = "if FileNum c <s FileNum M then getCurrentFileEnd fsize p else Inr (Pos M)"
      show "stepLoop fsize c M p s = Some r \<and> (\<forall>y. r = Inr y \<longrightarrow> P p s y)"
      proof (cases ?fe)
        case (Inl e)
        with body have "r = Inl e" by simp
        with Inl show ?thesis by (subst stepLoop.simps) simp
      next
        case (Inr fend)
        show ?thesis
        proof (cases "fend - Pos p <s s")
          case False
          with body Inr
          have r: "r = (if GreatThan (p\<lparr>Pos := Pos p + s\<rparr>) M then Inl OffsetInvalid
                        else Inr (p\<lparr>Pos := Pos p + s\<rparr>))"
            by (auto simp: Let_def split: if_splits)
          have "stepLoop fsize c M p s = Some r"
            using Inr False r by (subst stepLoop.simps) (simp add: Let_def)
          moreover have "P p s y'" if "r = Inr y'" for y'
            using that r stay [OF Inr False] by (auto split: if_splits)
          ultimately show ?thesis by blast
        next
          case True
          then have nz: "s - (fend - Pos p) \<noteq> 0" by auto
          show ?thesis
          proof (cases "GreatThan (p\<lparr>FileNum := FileNum p + 1, Pos := 0\<rparr>) M")
            case g: True
            with body Inr True have r: "r = Inl OffsetInvalid"
              by (auto simp: Let_def)
            have "stepLoop fsize c M p s = Some r"
              using Inr True g r by (subst stepLoop.simps) (simp add: Let_def)
            with r show ?thesis by simp
          next
            case g: False
            with body Inr True nz
            have rec: "loop fsize c M (p\<lparr>FileNum := FileNum p + 1, Pos := 0\<rparr>)
                         (s - (fend - Pos p)) = Some r"
              by (auto simp: Let_def)
            from "1.IH" [OF rec]
            have both: "stepLoop fsize c M (p\<lparr>FileNum := FileNum p + 1, Pos := 0\<rparr>)
                          (s - (fend - Pos p)) = Some r \<and>
                        (\<forall>y. r = Inr y \<longrightarrow>
                          P (p\<lparr>FileNum := FileNum p + 1, Pos := 0\<rparr>) (s - (fend - Pos p)) y)"
              by simp
            then have real: "stepLoop fsize c M (p\<lparr>FileNum := FileNum p + 1, Pos := 0\<rparr>)
                          (s - (fend - Pos p)) = Some r"
              and ih: "\<And>y. r = Inr y \<Longrightarrow>
                          P (p\<lparr>FileNum := FileNum p + 1, Pos := 0\<rparr>) (s - (fend - Pos p)) y"
              by blast+
            have "stepLoop fsize c M p s = Some r"
              using Inr True g nz real by (subst stepLoop.simps) (simp add: Let_def)
            moreover have "P p s y'" if "r = Inr y'" for y'
              using roll [OF Inr True g] real ih that by simp
            ultimately show ?thesis by blast
          qed
        qed
      qed
    qed
  qed
  from this [OF run] show ?thesis by simp
qed

lemma rolled_beyond:
  "FileNum M <s FileNum M + 1 \<Longrightarrow> FileNum p = FileNum M
     \<Longrightarrow> GreatThan (p\<lparr>FileNum := FileNum p + 1, Pos := 0\<rparr>) M"
  by (simp add: GreatThan_def)

lemma file_end_nonneg:
  assumes fe: "(if FileNum c <s FileNum M then getCurrentFileEnd fsize p else Inr (Pos M))
                 = Inr fend"
    and sizes: "\<forall>f sz. fsize f = Some sz \<longrightarrow> 0 \<le>s sz"
    and mode: "FileNum c <s FileNum M"
  shows "0 \<le> sint fend"
proof -
  from fe mode have "fsize (FileNum p) = Some fend"
    by (simp add: getCurrentFileEnd_def split: option.splits)
  with sizes have "0 \<le>s fend" by blast
  then show ?thesis by (simp add: word_sle_eq)
qed

lemma stepLoop_result:
  assumes run: "stepLoop fsize c M p n = Some (Inr y)"
    and sizes: "\<forall>f sz. fsize f = Some sz \<longrightarrow> 0 \<le>s sz"
    and top: "FileNum M <s FileNum M + 1"
    and mode: "FileNum c <s FileNum M \<or> FileNum p = FileNum M"
    and n: "0 <s n"
    and pos: "0 \<le>s Pos p"
    and fit: "sint (Pos p) + sint n < 2 ^ 63"
  shows "\<not> GreatThan y M \<and> 0 \<le>s Pos y \<and> sint (Pos y) \<le> sint (Pos p) + sint n \<and>
         (FileNum c <s FileNum M \<or> FileNum y = FileNum M)"
  using run mode n pos fit
proof (induction p n y rule: stepLoop_Inr_induct)
  case (stay p s fend)
  from stay.prems have i: "0 < sint s" "0 \<le> sint (Pos p)" "sint (Pos p) + sint s < 2 ^ 63"
    by (simp_all add: word_sless_alt word_sle_eq)
  have s: "sint (Pos p + s) = sint (Pos p) + sint s"
    using i by (intro sint_add_64) linarith+
  show ?case
    using stay.hyps stay.prems(1) s i by (simp add: word_sle_eq)
next
  case (roll p s fend y)
  have fmode: "FileNum c <s FileNum M"
    using roll.prems(1) roll.hyps(3) rolled_beyond [OF top] by blast
  from roll.prems have i: "0 < sint s" "0 \<le> sint (Pos p)" "sint (Pos p) + sint s < 2 ^ 63"
    by (simp_all add: word_sless_alt word_sle_eq)
  have e: "0 \<le> sint fend" using file_end_nonneg [OF roll.hyps(1) sizes fmode] .
  have d: "sint (fend - Pos p) = sint fend - sint (Pos p)"
    using i e sint_range_64 [of fend] by (intro sint_sub_64) linarith+
  from roll.hyps(2) d have lt: "sint fend - sint (Pos p) < sint s"
    by (simp add: word_sless_alt)
  have r: "sint (s - (fend - Pos p)) = sint s - (sint fend - sint (Pos p))"
    using i e lt d by (subst sint_sub_64) linarith+
  have "\<not> GreatThan y M \<and> 0 \<le>s Pos y \<and>
        sint (Pos y) \<le> sint (Pos (p\<lparr>FileNum := FileNum p + 1, Pos := 0\<rparr>))
                        + sint (s - (fend - Pos p)) \<and>
        (FileNum c <s FileNum M \<or> FileNum y = FileNum M)"
    using fmode r lt i e by (intro roll.IH) (simp_all add: word_sless_alt word_sle_eq)
  then show ?case using r e by simp
qed

lemma stepLoop_continue:
  assumes run: "stepLoop fsize c M p n = Some (Inr y)"
    and sizes: "\<forall>f sz. fsize f = Some sz \<longrightarrow> 0 \<le>s sz"
    and top: "FileNum M <s FileNum M + 1"
    and mode: "FileNum c <s FileNum M \<or> FileNum p = FileNum M"
    and n: "0 <s n"
    and m: "0 <s m"
    and pos: "0 \<le>s Pos p"
    and fit: "sint (Pos p) + sint n + sint m < 2 ^ 63"
  shows "stepLoop fsize c M p (n + m) = stepLoop fsize c M y m"
  using run mode n pos fit
proof (induction p n y rule: stepLoop_Inr_induct)
  case (stay p s fend)
  from m have im: "0 < sint m" by (simp add: word_sless_alt)
  from stay.prems
  have i: "0 < sint s" "0 \<le> sint (Pos p)" "sint (Pos p) + sint s + sint m < 2 ^ 63"
    by (simp_all add: word_sless_alt word_sle_eq)
  have s: "sint (Pos p + s) = sint (Pos p) + sint s"
    using i im by (intro sint_add_64) linarith+
  have sm: "sint (s + m) = sint s + sint m"
    using i im by (intro sint_add_64) linarith+
  have e: "0 \<le> sint fend"
  proof (cases "FileNum c <s FileNum M")
    case True
    then show ?thesis using file_end_nonneg [OF stay.hyps(1) sizes] by simp
  next
    case False
    with stay.prems(1) stay.hyps(1) have "FileNum p = FileNum M" "fend = Pos M" by simp_all
    with stay.hyps(3) s i show ?thesis
      by (auto simp: GreatThan_def word_sless_alt split: if_splits)
  qed
  have d: "sint (fend - Pos p) = sint fend - sint (Pos p)"
    using i im e sint_range_64 [of fend] by (intro sint_sub_64) linarith+
  from stay.hyps(2) d have ge: "sint s \<le> sint fend - sint (Pos p)"
    by (simp add: word_sless_alt)
  have d': "sint (fend - (Pos p + s)) = sint fend - (sint (Pos p) + sint s)"
    using i im e ge s sint_range_64 [of fend] by (subst sint_sub_64) (simp_all add: s)
  have cmp: "(fend - Pos p <s s + m) = (fend - (Pos p + s) <s m)"
    using d d' sm by (simp add: word_sless_alt) linarith
  have fe': "(if FileNum c <s FileNum M then getCurrentFileEnd fsize (p\<lparr>Pos := Pos p + s\<rparr>)
              else Inr (Pos M)) = Inr fend"
    using stay.hyps(1) by (simp add: getCurrentFileEnd_def split: if_splits)
  have rest: "s + m - (fend - Pos p) = m - (fend - (Pos p + s))" by simp
  show ?case
    by (simp add: stepLoop.simps [of fsize c M p "s + m"]
        stepLoop.simps [of fsize c M "p\<lparr>Pos := Pos p + s\<rparr>" m]
        stay.hyps(1) fe' cmp rest Let_def add.assoc)
next
  case (roll p s fend y)
  have fmode: "FileNum c <s FileNum M"
    using roll.prems(1) roll.hyps(3) rolled_beyond [OF top] by blast
  from m have im: "0 < sint m" by (simp add: word_sless_alt)
  from roll.prems
  have i: "0 < sint s" "0 \<le> sint (Pos p)" "sint (Pos p) + sint s + sint m < 2 ^ 63"
    by (simp_all add: word_sless_alt word_sle_eq)
  have e: "0 \<le> sint fend" using file_end_nonneg [OF roll.hyps(1) sizes fmode] .
  have d: "sint (fend - Pos p) = sint fend - sint (Pos p)"
    using i im e sint_range_64 [of fend] by (intro sint_sub_64) linarith+
  from roll.hyps(2) d have lt: "sint fend - sint (Pos p) < sint s"
    by (simp add: word_sless_alt)
  have r: "sint (s - (fend - Pos p)) = sint s - (sint fend - sint (Pos p))"
    using i im e lt d by (subst sint_sub_64) linarith+
  have sm: "sint (s + m) = sint s + sint m"
    using i im by (intro sint_add_64) linarith+
  have rm: "sint (s - (fend - Pos p) + m) = sint s - (sint fend - sint (Pos p)) + sint m"
    using i im e lt r by (subst sint_add_64) linarith+
  have ih: "stepLoop fsize c M (p\<lparr>FileNum := FileNum p + 1, Pos := 0\<rparr>)
              (s - (fend - Pos p) + m) = stepLoop fsize c M y m"
    using fmode r lt i e im by (intro roll.IH) (simp_all add: word_sless_alt word_sle_eq)
  have cmp: "fend - Pos p <s s + m"
    using d sm lt im by (simp add: word_sless_alt)
  have rest: "s + m - (fend - Pos p) = s - (fend - Pos p) + m" by simp
  have nz: "s - (fend - Pos p) + m \<noteq> 0"
  proof
    assume "s - (fend - Pos p) + m = 0"
    then have "sint (s - (fend - Pos p) + m) = 0" by simp
    with rm lt im show False by linarith
  qed
  show ?case
    using roll.hyps(1) roll.hyps(3) cmp nz ih
    by (simp add: stepLoop.simps [of fsize c M p "s + m"] rest Let_def)
qed


lemma stepLoop_mode:
  assumes run: "stepLoop fsize c M p s = Some (Inr y)"
    and same: "(FileNum c' <s FileNum M) = (FileNum c <s FileNum M)"
  shows "stepLoop fsize c' M p s = Some (Inr y)"
  using run
proof (induction p s y rule: stepLoop_Inr_induct)
  case (stay p s fend)
  then show ?case
    by (simp add: stepLoop.simps [of fsize c' M p s] same Let_def)
next
  case (roll p s fend y)
  from roll.hyps(2) have "s - (fend - Pos p) \<noteq> 0" by auto
  with roll show ?case
    by (simp add: stepLoop.simps [of fsize c' M p s] same Let_def)
qed

lemma stepLoop_last_file:
  assumes top: "FileNum M <s FileNum M + 1"
    and y: "FileNum y = FileNum M"
    and run: "stepLoop fsize c M y m = Some (Inr w)"
  shows "w = y\<lparr>Pos := Pos y + m\<rparr>"
  using run rolled_beyond [OF top y]
  by (simp add: stepLoop.simps [of fsize c M y m] Let_def split: sum.splits if_splits)

text \<open>
  Claim C3 as stated fails, because \<open>FileNum++\<close> wraps around. Let the bound be
  \<open>(2\<^sup>6\<^sup>3 - 1, 10)\<close>, let the files \<open>2\<^sup>6\<^sup>3 - 2\<close>, \<open>2\<^sup>6\<^sup>3 - 1\<close> and \<open>-2\<^sup>6\<^sup>3\<close> have the sizes
  \<open>0\<close>, \<open>9\<close> and \<open>100\<close>, and start at \<open>(2\<^sup>6\<^sup>3 - 2, 0)\<close>. Eight bytes lead to
  \<open>(2\<^sup>6\<^sup>3 - 1, 8)\<close>; five more, now measured against the bound's position \<open>10\<close>, roll
  over to file \<open>-2\<^sup>6\<^sup>3\<close> and end at position \<open>3\<close>. Thirteen bytes at once are measured
  against the file's size \<open>9\<close> and end at position \<open>4\<close> of file \<open>-2\<^sup>6\<^sup>3\<close>.
\<close>

theorem stepOffset_additive_counterexample:
  "(0 :: int64) \<le>s 8 \<and> (0 :: int64) \<le>s 5 \<and>
   stepOffset wrapSizes \<lparr>FileNum = 9223372036854775806, Pos = 0\<rparr> 8
       \<lparr>FileNum = 9223372036854775807, Pos = 10\<rparr>
     = Some (Inr \<lparr>FileNum = 9223372036854775807, Pos = 8\<rparr>) \<and>
   stepOffset wrapSizes \<lparr>FileNum = 9223372036854775807, Pos = 8\<rparr> 5
       \<lparr>FileNum = 9223372036854775807, Pos = 10\<rparr>
     = Some (Inr \<lparr>FileNum = - 9223372036854775808, Pos = 3\<rparr>) \<and>
   stepOffset wrapSizes \<lparr>FileNum = 9223372036854775806, Pos = 0\<rparr> (8 + 5)
       \<lparr>FileNum = 9223372036854775807, Pos = 10\<rparr>
     = Some (Inr \<lparr>FileNum = - 9223372036854775808, Pos = 4\<rparr>) \<and>
   \<lparr>FileNum = - 9223372036854775808, Pos = 3\<rparr>
     \<noteq> \<lparr>FileNum = - 9223372036854775808 :: int64, Pos = 4 :: int64\<rparr>"
  by code_simp

text \<open>
  The byte counts wrap around as well. With two files of \<open>2\<^sup>6\<^sup>2\<close> bytes, stepping by
  \<open>2\<^sup>6\<^sup>2 + 5\<close> and then by \<open>2\<^sup>6\<^sup>2\<close> ends at \<open>(2, 5)\<close>, while the sum of the two counts is
  the negative \<^verbatim>\<open>int64\<close> \<open>-2\<^sup>6\<^sup>3 + 5\<close>, which moves the position backward in file 0.
\<close>

lemma stepOffset_additive_byte_wrap:
  "stepOffset hugeSizes \<lparr>FileNum = 0, Pos = 0\<rparr> 4611686018427387909 \<lparr>FileNum = 2, Pos = 10\<rparr>
     = Some (Inr \<lparr>FileNum = 1, Pos = 5\<rparr>) \<and>
   stepOffset hugeSizes \<lparr>FileNum = 1, Pos = 5\<rparr> 4611686018427387904 \<lparr>FileNum = 2, Pos = 10\<rparr>
     = Some (Inr \<lparr>FileNum = 2, Pos = 5\<rparr>) \<and>
   stepOffset hugeSizes \<lparr>FileNum = 0, Pos = 0\<rparr> (4611686018427387909 + 4611686018427387904)
       \<lparr>FileNum = 2, Pos = 10\<rparr>
     = Some (Inr \<lparr>FileNum = 0, Pos = - 9223372036854775803\<rparr>)"
  by code_simp

text \<open>
  Claim C3, amended. Let no \<^verbatim>\<open>int64\<close> wrap around: every file size that \<^verbatim>\<open>os.Stat\<close>
  reports is non-negative, \<open>maxStep.FileNum\<close> is not the largest \<^verbatim>\<open>int64\<close>, \<open>x.Pos\<close> is
  non-negative, and \<open>x.Pos + n + m\<close> is at most \<open>2\<^sup>6\<^sup>3 - 1\<close> for the non-negative byte
  counts \<open>n\<close> and \<open>m\<close>. If stepping from \<open>x\<close> by \<open>n\<close> returns \<open>y\<close>, stepping from \<open>y\<close> by \<open>m\<close>
  returns \<open>z\<close>, and stepping from \<open>x\<close> by \<open>n + m\<close> returns \<open>w\<close> (all with the bound
  \<open>maxStep\<close>, none of them an error), then \<open>z = w\<close>.
\<close>

theorem stepOffset_additive:
  assumes sizes: "\<forall>f sz. fsize f = Some sz \<longrightarrow> 0 \<le>s sz"
    and top: "FileNum maxStep <s FileNum maxStep + 1"
    and n: "0 \<le>s n"
    and m: "0 \<le>s m"
    and pos: "0 \<le>s Pos x"
    and fit: "sint (Pos x) + sint n + sint m < 2 ^ 63"
    and first: "stepOffset fsize x n maxStep = Some (Inr y)"
    and second: "stepOffset fsize y m maxStep = Some (Inr z)"
    and whole: "stepOffset fsize x (n + m) maxStep = Some (Inr w)"
  shows "z = w"
proof (cases "n = 0 \<or> m = 0")
  case True
  then show ?thesis
  proof
    assume "n = 0"
    with first have "y = x" by (simp add: stepOffset_def split: if_splits)
    with second whole \<open>n = 0\<close> show ?thesis by simp
  next
    assume "m = 0"
    with second have "z = y" by (simp add: stepOffset_def split: if_splits)
    with first whole \<open>m = 0\<close> show ?thesis by simp
  qed
next
  case False
  with n m have n': "0 <s n" and m': "0 <s m"
    by (auto simp: signed.le_less)
  from n' m' pos
  have i: "0 < sint n" "0 < sint m" "0 \<le> sint (Pos x)"
    by (simp_all add: word_sless_alt word_sle_eq)
  have nm: "sint (n + m) = sint n + sint m"
    using i fit by (intro sint_add_64) linarith+
  then have nz: "n + m \<noteq> 0" using i by auto
  from first False
  have le: "\<not> FileNum maxStep <s FileNum x"
    and run1: "stepLoop fsize x maxStep x n = Some (Inr y)"
    by (simp_all add: stepOffset_def split: if_splits)
  from second False
  have run2: "stepLoop fsize y maxStep y m = Some (Inr z)"
    by (simp_all add: stepOffset_def split: if_splits)
  from whole nz le
  have run3: "stepLoop fsize x maxStep x (n + m) = Some (Inr w)"
    by (simp add: stepOffset_def)
  from le have mode: "FileNum x <s FileNum maxStep \<or> FileNum x = FileNum maxStep"
    by (simp add: signed.not_less signed.le_less)
  have fit1: "sint (Pos x) + sint n < 2 ^ 63" using fit i by linarith
  from stepLoop_result [OF run1 sizes top mode n' pos fit1]
  have ymode: "FileNum x <s FileNum maxStep \<or> FileNum y = FileNum maxStep" by blast
  from stepLoop_continue [OF run1 sizes top mode n' m' pos fit] run3
  have cont: "stepLoop fsize x maxStep y m = Some (Inr w)" by simp
  show ?thesis
  proof (cases "FileNum y = FileNum maxStep")
    case True
    from stepLoop_last_file [OF top True cont] stepLoop_last_file [OF top True run2]
    show ?thesis by simp
  next
    case False
    with ymode have x: "FileNum x <s FileNum maxStep" by simp
    from second have "\<not> FileNum maxStep <s FileNum y"
      by (simp add: stepOffset_def split: if_splits)
    with False have "FileNum y <s FileNum maxStep"
      by (simp add: signed.not_less signed.le_less)
    with x have "(FileNum x <s FileNum maxStep) = (FileNum y <s FileNum maxStep)" by simp
    from stepLoop_mode [OF run2 this] cont show ?thesis by simp
  qed
qed

theorem stepOffset_additive_witness:
  "stepOffset rolledSizes \<lparr>FileNum = 0, Pos = 0\<rparr> 14 \<lparr>FileNum = 1, Pos = 28\<rparr>
     = Some (Inr \<lparr>FileNum = 0, Pos = 14\<rparr>) \<and>
   stepOffset rolledSizes \<lparr>FileNum = 0, Pos = 14\<rparr> 14 \<lparr>FileNum = 1, Pos = 28\<rparr>
     = Some (Inr \<lparr>FileNum = 1, Pos = 14\<rparr>) \<and>
   stepOffset rolledSizes \<lparr>FileNum = 0, Pos = 0\<rparr> (14 + 14) \<lparr>FileNum = 1, Pos = 28\<rparr>
     = Some (Inr \<lparr>FileNum = 1, Pos = 14\<rparr>)"
proof -
  have sizes: "\<forall>f sz. rolledSizes f = Some sz \<longrightarrow> 0 \<le>s sz"
    by (auto simp: rolledSizes_def word_sle_eq split: if_splits)
  have top: "FileNum \<lparr>FileNum = 1, Pos = 28 :: int64\<rparr>
               <s FileNum \<lparr>FileNum = 1, Pos = 28 :: int64\<rparr> + 1"
    by (simp add: word_sless_alt)
  have n: "(0 :: int64) \<le>s 14" by (simp add: word_sle_eq)
  have pos: "0 \<le>s Pos \<lparr>FileNum = 0 :: int64, Pos = 0\<rparr>" by simp
  have fit: "sint (Pos \<lparr>FileNum = 0 :: int64, Pos = 0\<rparr>) + sint (14 :: int64) + sint (14 :: int64)
               < 2 ^ 63"
    by simp
  have first: "stepOffset rolledSizes \<lparr>FileNum = 0, Pos = 0\<rparr> 14 \<lparr>FileNum = 1, Pos = 28\<rparr>
                 = Some (Inr \<lparr>FileNum = 0, Pos = 14\<rparr>)"
    by code_simp
  have second: "stepOffset rolledSizes \<lparr>FileNum = 0, Pos = 14\<rparr> 14 \<lparr>FileNum = 1, Pos = 28\<rparr>
                 = Some (Inr \<lparr>FileNum = 1, Pos = 14\<rparr>)"
    by code_simp
  have whole:
    "stepOffset rolledSizes \<lparr>FileNum = 0, Pos = 0\<rparr> (14 + 14) \<lparr>FileNum = 1, Pos = 28\<rparr>
       = Some (Inr \<lparr>FileNum = 1, Pos = 14\<rparr>)"
    by code_simp
  from stepOffset_additive [OF sizes top n n pos fit first second whole] first second whole
  show ?thesis by simp
qed

end
